theory Spec2Isabelle
  imports Complex_Main
begin

section \<open>Gibbs ringing suppression (dipy/denoise/gibbs.py)\<close>

text \<open>
  The module is read three times. The \<^emph>\<open>value reading\<close> of this section follows every
  statement with the voxel values it computes: an array is its shape together with the
  function from index tuples to element values, floating point numbers are idealised as
  real and complex numbers, and the transforms imported from scipy (\<open>fft2\<close>, \<open>ifft2\<close>,
  \<open>fftshift\<close>) are parameters. It describes a call on a floating point input that returns.
  The \<^emph>\<open>descriptor reading\<close> follows every statement with the shape and the dtype of each
  array and with the exceptions numpy raises; it says which calls return. The
  \<^emph>\<open>aliasing reading\<close> follows every statement with the memory each array name refers to
  and with the in-place writes.
\<close>

subsection \<open>Arrays\<close>

record 'a ndarray =
  shape :: "nat list"
  item :: "nat list \<Rightarrow> 'a"

text \<open>
  An index tuple \<open>i # j # t\<close> names the positions on the first two axes and, in \<open>t\<close>, on
  the remaining ones (the Ellipsis of the source). It lies in an array of shape \<open>shp\<close> when
  it has one position below each length.
\<close>

definition in_shape :: "nat list \<Rightarrow> nat list \<Rightarrow> bool" where
  "in_shape idx shp = (length idx = length shp \<and> list_all2 (<) idx shp)"

text \<open>\<open>x.transpose((1, 0) + tuple(range(2, x.ndim)))\<close>: the first two axes change places.\<close>

definition transpose01 :: "'a ndarray \<Rightarrow> 'a ndarray" where
  "transpose01 x =
     \<lparr>shape = (case shape x of a # b # r \<Rightarrow> b # a # r | s \<Rightarrow> s),
      item = (\<lambda>idx. case idx of i # j # t \<Rightarrow> item x (j # i # t) | _ \<Rightarrow> item x idx)\<rparr>"

text \<open>
  A bound of a Python slice on an axis of length \<open>len\<close>: a negative bound counts from the
  end, and every bound is clamped to the axis.
\<close>

definition slice_bound :: "nat \<Rightarrow> int \<Rightarrow> nat" where
  "slice_bound len i = (if i < 0 then nat (max 0 (int len + i)) else min (nat i) len)"

text \<open>\<open>x[:, start:stop, ...]\<close>; \<open>None\<close> is an omitted bound.\<close>

definition slice1 :: "int option \<Rightarrow> int option \<Rightarrow> 'a ndarray \<Rightarrow> 'a ndarray" where
  "slice1 start stop x =
     (let len = shape x ! 1;
          a = (case start of None \<Rightarrow> 0 | Some s \<Rightarrow> slice_bound len s);
          b = (case stop of None \<Rightarrow> len | Some s \<Rightarrow> slice_bound len s)
      in \<lparr>shape = (shape x)[1 := b - a],
          item = (\<lambda>idx. case idx of i # j # t \<Rightarrow> item x (i # (j + a) # t) | _ \<Rightarrow> item x idx)\<rparr>)"

text \<open>\<open>np.concatenate((a, b, c), axis=1)\<close>.\<close>

definition concatenate1 :: "'a ndarray \<Rightarrow> 'a ndarray \<Rightarrow> 'a ndarray \<Rightarrow> 'a ndarray" where
  "concatenate1 a b c =
     (let la = shape a ! 1; lb = shape b ! 1; lc = shape c ! 1
      in \<lparr>shape = (shape b)[1 := la + lb + lc],
          item = (\<lambda>idx. case idx of
                  i # j # t \<Rightarrow>
                    if j < la then item a (i # j # t)
                    else if j < la + lb then item b (i # (j - la) # t)
                    else item c (i # (j - la - lb) # t)
                | _ \<Rightarrow> item b idx)\<rparr>)"

text \<open>\<open>np.abs(a - b)\<close> and \<open>a + b\<close> on arrays of one shape, element by element.\<close>

definition abs_diff :: "real ndarray \<Rightarrow> real ndarray \<Rightarrow> real ndarray" where
  "abs_diff a b = \<lparr>shape = shape a, item = (\<lambda>idx. \<bar>item a idx - item b idx\<bar>)\<rparr>"

definition add :: "real ndarray \<Rightarrow> real ndarray \<Rightarrow> real ndarray" where
  "add a b = \<lparr>shape = shape a, item = (\<lambda>idx. item a idx + item b idx)\<rparr>"

subsection \<open>Local total variation: \<open>_image_tv\<close>\<close>

text \<open>The body of the loop \<open>for n in range(1, n_points)\<close>, on the padded array \<open>xs\<close>.\<close>

definition tv_step :: "real ndarray \<Rightarrow> int \<Rightarrow> nat \<Rightarrow> real ndarray \<times> real ndarray
    \<Rightarrow> real ndarray \<times> real ndarray" where
  "tv_step xs np n acc =
     (case acc of (ptv, ntv) \<Rightarrow>
        (add ptv (abs_diff (slice1 (Some (np + 1 + int n)) (Some (- np - 1 + int n)) xs)
                           (slice1 (Some (np + 2 + int n)) (Some (- np + int n)) xs)),
         add ntv (abs_diff (slice1 (Some (np + 1 - int n)) (Some (- np - 1 - int n)) xs)
                           (slice1 (Some (np - int n)) (Some (- np - 2 - int n)) xs))))"

definition image_tv :: "real ndarray \<Rightarrow> nat \<Rightarrow> nat \<Rightarrow> real ndarray \<times> real ndarray" where
  "image_tv x axis n_points =
     (let np = int n_points;
          xs = (if axis \<noteq> 0 then x else transpose01 x);
          xs = concatenate1 (slice1 (Some (- np - 1)) None xs) xs (slice1 (Some 0) (Some (np + 1)) xs);
          ptv = abs_diff (slice1 (Some (np + 1)) (Some (- np - 1)) xs)
                         (slice1 (Some (np + 2)) (Some (- np)) xs);
          ntv = abs_diff (slice1 (Some (np + 1)) (Some (- np - 1)) xs)
                         (slice1 (Some np) (Some (- np - 2)) xs);
          (ptv, ntv) = fold (tv_step xs np) [1..<n_points] (ptv, ntv)
      in if axis = 0 then (transpose01 ptv, transpose01 ntv) else (ptv, ntv))"

text \<open>The padded array of \<open>_image_tv\<close>.\<close>

definition padded :: "real ndarray \<Rightarrow> nat \<Rightarrow> real ndarray" where
  "padded xs n = concatenate1 (slice1 (Some (- int n - 1)) None xs) xs
                   (slice1 (Some 0) (Some (int n + 1)) xs)"

text \<open>The two fields on an array whose axis 1 is the axis of the variation.\<close>

definition tv_fields :: "real ndarray \<Rightarrow> nat \<Rightarrow> real ndarray \<times> real ndarray" where
  "tv_fields xs0 n =
     (let xs = padded xs0 n
      in fold (tv_step xs (int n)) [1..<n]
                (abs_diff (slice1 (Some (int n + 1)) (Some (- int n - 1)) xs)
                          (slice1 (Some (int n + 2)) (Some (- int n)) xs),
                 abs_diff (slice1 (Some (int n + 1)) (Some (- int n - 1)) xs)
                          (slice1 (Some (int n)) (Some (- int n - 2)) xs)))"

text \<open>The index \<open>idx\<close> moved by \<open>d\<close> places along \<open>axis\<close>, on a periodic axis of length \<open>l\<close>.\<close>

definition moved :: "nat \<Rightarrow> nat \<Rightarrow> nat list \<Rightarrow> int \<Rightarrow> nat list" where
  "moved axis l idx d = idx[axis := nat ((int (idx ! axis) + d) mod int l)]"

subsection \<open>More array operations\<close>

definition zeros :: "nat list \<Rightarrow> real ndarray" where
  "zeros shp = \<lparr>shape = shp, item = (\<lambda>idx. 0)\<rparr>"

definition map_arr :: "('a \<Rightarrow> 'b) \<Rightarrow> 'a ndarray \<Rightarrow> 'b ndarray" where
  "map_arr f x = \<lparr>shape = shape x, item = (\<lambda>idx. f (item x idx))\<rparr>"

definition map2_arr :: "('a \<Rightarrow> 'b \<Rightarrow> 'c) \<Rightarrow> 'a ndarray \<Rightarrow> 'b ndarray \<Rightarrow> 'c ndarray" where
  "map2_arr f x y = \<lparr>shape = shape x, item = (\<lambda>idx. f (item x idx) (item y idx))\<rparr>"

text \<open>
  \<open>np.linspace(start, stop, num)\<close>: \<open>num\<close> samples, the first \<open>start\<close> and, when there are
  at least two, the last \<open>stop\<close>.
\<close>

definition linspace :: "real \<Rightarrow> real \<Rightarrow> nat \<Rightarrow> real ndarray" where
  "linspace start stop num =
     \<lparr>shape = [num],
      item = (\<lambda>idx. case idx of
                [] \<Rightarrow> start
              | i # t \<Rightarrow> if num \<le> 1 then start
                         else start + real i * ((stop - start) / real (num - 1)))\<rparr>"

text \<open>\<open>x[start:stop]\<close> on the first axis.\<close>

definition slice0 :: "int \<Rightarrow> int \<Rightarrow> 'a ndarray \<Rightarrow> 'a ndarray" where
  "slice0 start stop x =
     (let len = shape x ! 0; a = slice_bound len start; b = slice_bound len stop
      in \<lparr>shape = (shape x)[0 := b - a],
          item = (\<lambda>idx. case idx of i # t \<Rightarrow> item x ((i + a) # t) | _ \<Rightarrow> item x idx)\<rparr>)"

text \<open>
  \<open>X, Y = np.meshgrid(a, b)\<close> on one-dimensional \<open>a\<close> and \<open>b\<close>: both results have the shape
  \<open>(len(b), len(a))\<close>, \<open>X[i, j] = a[j]\<close> and \<open>Y[i, j] = b[i]\<close>.
\<close>

definition meshgrid :: "'a ndarray \<Rightarrow> 'a ndarray \<Rightarrow> 'a ndarray \<times> 'a ndarray" where
  "meshgrid a b =
     (\<lparr>shape = [shape b ! 0, shape a ! 0],
       item = (\<lambda>idx. case idx of i # j # t \<Rightarrow> item a [j] | _ \<Rightarrow> item a idx)\<rparr>,
      \<lparr>shape = [shape b ! 0, shape a ! 0],
       item = (\<lambda>idx. case idx of i # j # t \<Rightarrow> item b [i] | _ \<Rightarrow> item b idx)\<rparr>)"

text \<open>
  One subscript of an assignment \<open>x[e0, e1] = v\<close>: an integer (negative from the end) or a
  slice \<open>start:stop\<close>, and the positions of an axis of length \<open>len\<close> it selects.
\<close>

datatype subscript = Ix int | Sl int int

fun selects :: "nat \<Rightarrow> subscript \<Rightarrow> nat \<Rightarrow> bool" where
  "selects len (Ix k) i = (i = nat (if k < 0 then int len + k else k))"
| "selects len (Sl a b) i = (slice_bound len a \<le> i \<and> i < slice_bound len b)"

fun first_selected :: "nat \<Rightarrow> subscript \<Rightarrow> nat" where
  "first_selected len (Ix k) = nat (if k < 0 then int len + k else k)"
| "first_selected len (Sl a b) = slice_bound len a"

text \<open>\<open>x[e0, e1] = v\<close> for a scalar \<open>v\<close>.\<close>

definition fill :: "subscript \<Rightarrow> subscript \<Rightarrow> 'a \<Rightarrow> 'a ndarray \<Rightarrow> 'a ndarray" where
  "fill e0 e1 v x =
     x\<lparr>item := (\<lambda>idx. case idx of
                 i # j # t \<Rightarrow>
                   if selects (shape x ! 0) e0 i \<and> selects (shape x ! 1) e1 j then v
                   else item x idx
               | _ \<Rightarrow> item x idx)\<rparr>"

text \<open>\<open>x[e0, e1] = v\<close> for an array \<open>v\<close> of the shape of the selected block.\<close>

definition set_block :: "subscript \<Rightarrow> subscript \<Rightarrow> 'a ndarray \<Rightarrow> 'a ndarray \<Rightarrow> 'a ndarray" where
  "set_block e0 e1 v x =
     x\<lparr>item := (\<lambda>idx. case idx of
                 i # j # t \<Rightarrow>
                   if selects (shape x ! 0) e0 i \<and> selects (shape x ! 1) e1 j
                   then item v ((i - first_selected (shape x ! 0) e0)
                                # (j - first_selected (shape x ! 1) e1) # t)
                   else item x idx
               | _ \<Rightarrow> item x idx)\<rparr>"

subsection \<open>Blending weights: \<open>_weights\<close>\<close>

text \<open>
  The argument \<open>image_dtype\<close> of the source only picks the precision of the two arrays; the
  value reading has none.
\<close>

definition weights :: "nat list \<Rightarrow> real ndarray \<times> real ndarray" where
  "weights shp =
     (let G0 = zeros shp;
          G1 = zeros shp;
          k0 = linspace (- pi) pi (shp ! 0);
          k1 = linspace (- pi) pi (shp ! 1);
          (K1, K0) = meshgrid (slice0 1 (- 1) k1) (slice0 1 (- 1) k0);
          cosk0 = map_arr (\<lambda>v. 1 + cos v) K0;
          cosk1 = map_arr (\<lambda>v. 1 + cos v) K1;
          G1 = set_block (Sl 1 (- 1)) (Sl 1 (- 1))
                 (map2_arr (/) cosk0 (map2_arr (+) cosk0 cosk1)) G1;
          G0 = set_block (Sl 1 (- 1)) (Sl 1 (- 1))
                 (map2_arr (/) cosk1 (map2_arr (+) cosk0 cosk1)) G0;
          G1 = fill (Sl 1 (- 1)) (Ix 0) 1 G1;
          G1 = fill (Sl 1 (- 1)) (Ix (- 1)) 1 G1;
          G1 = fill (Ix 0) (Ix 0) (1 / 2) G1;
          G1 = fill (Ix (- 1)) (Ix (- 1)) (1 / 2) G1;
          G1 = fill (Ix 0) (Ix (- 1)) (1 / 2) G1;
          G1 = fill (Ix (- 1)) (Ix 0) (1 / 2) G1;
          G0 = fill (Ix 0) (Sl 1 (- 1)) 1 G0;
          G0 = fill (Ix (- 1)) (Sl 1 (- 1)) 1 G0;
          G0 = fill (Ix 0) (Ix 0) (1 / 2) G0;
          G0 = fill (Ix (- 1)) (Ix (- 1)) (1 / 2) G0;
          G0 = fill (Ix 0) (Ix (- 1)) (1 / 2) G0;
          G0 = fill (Ix (- 1)) (Ix 0) (1 / 2) G0
      in (G0, G1))"

subsection \<open>Transforms of the dependency\<close>

text \<open>
  \<open>fft2\<close>, \<open>ifft2\<close> and \<open>fftshift\<close> come from scipy. Each is a parameter: a transform of one
  two-dimensional image, given its two lengths. With \<open>axes=(0, 1)\<close> the dependency applies it
  to every slice of the remaining axes on its own.
\<close>

type_synonym transform2 = "nat \<Rightarrow> nat \<Rightarrow> (nat \<Rightarrow> nat \<Rightarrow> complex) \<Rightarrow> nat \<Rightarrow> nat \<Rightarrow> complex"

record transforms =
  fft2 :: transform2
  ifft2 :: transform2
  fftshift :: transform2

definition on_axes01 :: "transform2 \<Rightarrow> complex ndarray \<Rightarrow> complex ndarray" where
  "on_axes01 F x =
     \<lparr>shape = shape x,
      item = (\<lambda>idx. case idx of
                i # j # t \<Rightarrow> F (shape x ! 0) (shape x ! 1) (\<lambda>a b. item x (a # b # t)) i j
              | _ \<Rightarrow> item x idx)\<rparr>"

subsection \<open>The sub-voxel shift search: \<open>_gibbs_removal_1d\<close>\<close>

text \<open>\<open>ssamp = np.linspace(0.02, 0.9, num=45)\<close>, the candidates in the order of the loop.\<close>

definition ssamp :: "real list" where
  "ssamp = map (\<lambda>i. item (linspace (2 / 100) (9 / 10) 45) [i]) [0..<45]"

text \<open>
  \<open>k = np.linspace(-N/2, N/2-1, num=N); k = (2.0j * np.pi * k) / N\<close>, a one-dimensional
  array that the source lays along axis 1.
\<close>

definition phase_ramp :: "nat \<Rightarrow> complex ndarray" where
  "phase_ramp N =
     map_arr (\<lambda>v. (2 * \<i> * complex_of_real pi * complex_of_real v) / of_nat N)
       (linspace (- (real N / 2)) (real N / 2 - 1) N)"

text \<open>\<open>c * e\<close> for \<open>e\<close> laid along axis 1 (\<open>e[np.newaxis, :]\<close>, \<open>e[np.newaxis, :, np.newaxis]\<close>).\<close>

definition mul_axis1 :: "complex ndarray \<Rightarrow> complex ndarray \<Rightarrow> complex ndarray" where
  "mul_axis1 c e =
     \<lparr>shape = shape c,
      item = (\<lambda>idx. case idx of i # j # t \<Rightarrow> item c idx * item e [j] | _ \<Rightarrow> item c idx)\<rparr>"

text \<open>\<open>x[mask] = v[mask]\<close> and \<open>x[mask] = s\<close> for a boolean mask of the shape of \<open>x\<close>.\<close>

definition put_mask :: "'a ndarray \<Rightarrow> bool ndarray \<Rightarrow> 'a ndarray \<Rightarrow> 'a ndarray" where
  "put_mask x m v = x\<lparr>item := (\<lambda>idx. if item m idx then item v idx else item x idx)\<rparr>"

definition fill_mask :: "'a ndarray \<Rightarrow> bool ndarray \<Rightarrow> 'a \<Rightarrow> 'a ndarray" where
  "fill_mask x m s = x\<lparr>item := (\<lambda>idx. if item m idx then s else item x idx)\<rparr>"

text \<open>
  The image shifted by the phase ramp \<open>eks\<close>:
  \<open>np.abs(ifft2(fftshift(c * eks, axes=(0, 1)), axes=(0, 1)))\<close>.
\<close>

definition shifted :: "transforms \<Rightarrow> complex ndarray \<Rightarrow> complex ndarray \<Rightarrow> real ndarray" where
  "shifted T c eks =
     map_arr cmod (on_axes01 (ifft2 T) (on_axes01 (fftshift T) (mul_axis1 c eks)))"

text \<open>\<open>tvr, tvl = _image_tv(img, axis=1, n_points=n_points); np.minimum(tvr, tvl)\<close>.\<close>

definition tv_score :: "real ndarray \<Rightarrow> nat \<Rightarrow> real ndarray" where
  "tv_score img n_points =
     (let (tvr, tvl) = image_tv img 1 n_points in map2_arr min tvr tvl)"

text \<open>The arrays the loop over \<open>ssamp\<close> updates in place.\<close>

record search_state =
  isp :: "real ndarray"
  isn :: "real ndarray"
  sp :: "real ndarray"
  sn :: "real ndarray"
  tvp :: "real ndarray"
  tvn :: "real ndarray"

definition search_init :: "real ndarray \<Rightarrow> nat \<Rightarrow> search_state" where
  "search_init xs n_points =
     (let tvp = tv_score xs n_points
      in \<lparr>isp = xs, isn = xs, sp = zeros (shape xs), sn = zeros (shape xs),
          tvp = tvp, tvn = tvp\<rparr>)"

text \<open>The body of \<open>for s in ssamp\<close>; \<open>c\<close> is the centred spectrum and \<open>k\<close> the phase ramp.\<close>

definition search_step ::
    "transforms \<Rightarrow> nat \<Rightarrow> complex ndarray \<Rightarrow> complex ndarray \<Rightarrow> real \<Rightarrow> search_state
     \<Rightarrow> search_state" where
  "search_step T n_points c k s st =
     (let ks = map_arr (\<lambda>v. v * complex_of_real s) k;
          eks = map_arr exp ks;
          img_p = shifted T c eks;
          tvs_p = tv_score img_p n_points;
          img_n = shifted T c (map_arr cnj eks);
          tvs_n = tv_score img_n n_points;
          maskp = map2_arr (\<lambda>a b. a > b) (tvp st) tvs_p;
          maskn = map2_arr (\<lambda>a b. a > b) (tvn st) tvs_n
      in \<lparr>isp = put_mask (isp st) maskp img_p,
          isn = put_mask (isn st) maskn img_n,
          sp = fill_mask (sp st) maskp s,
          sn = fill_mask (sn st) maskn s,
          tvp = put_mask (tvp st) maskp tvs_p,
          tvn = put_mask (tvn st) maskn tvs_n\<rparr>)"

text \<open>The state after the candidates \<open>cs\<close>, on the oriented copy \<open>xs\<close> of the image.\<close>

definition search :: "transforms \<Rightarrow> real ndarray \<Rightarrow> nat \<Rightarrow> real list \<Rightarrow> search_state" where
  "search T xs n_points cs =
     (let N = shape xs ! 1;
          c = on_axes01 (fftshift T) (on_axes01 (fft2 T) (map_arr complex_of_real xs));
          k = phase_ramp N
      in fold (search_step T n_points c k) cs (search_init xs n_points))"

text \<open>
  The lines after the loop: \<open>idx = np.nonzero(sp + sn)\<close> and the interpolation written to
  \<open>xs[idx]\<close>.
\<close>

definition interpolate :: "real ndarray \<Rightarrow> search_state \<Rightarrow> real ndarray" where
  "interpolate xs st =
     (let idx = map_arr (\<lambda>v. v \<noteq> 0) (map2_arr (+) (sp st) (sn st));
          tmp = map2_arr (-) (isp st) (isn st);
          tmp = map2_arr (/) tmp (map2_arr (+) (sp st) (sn st));
          tmp = map2_arr (*) tmp (sn st);
          tmp = map2_arr (+) tmp (isn st)
      in put_mask xs idx tmp)"

definition gibbs_removal_1d :: "transforms \<Rightarrow> real ndarray \<Rightarrow> nat \<Rightarrow> nat \<Rightarrow> real ndarray" where
  "gibbs_removal_1d T x axis n_points =
     (let xs = (if axis \<noteq> 0 then x else transpose01 x);
          st = search T xs n_points ssamp;
          xs = interpolate xs st
      in if axis = 0 then transpose01 xs else xs)"

text \<open>The index of a voxel in the oriented copy \<open>xs\<close> of \<open>_gibbs_removal_1d\<close>.\<close>

definition oriented :: "nat \<Rightarrow> nat list \<Rightarrow> nat list" where
  "oriented axis idx = (if axis \<noteq> 0 then idx else case idx of i # j # t \<Rightarrow> j # i # t | _ \<Rightarrow> idx)"

subsection \<open>The two-dimensional correction: \<open>_gibbs_removal_2d\<close>\<close>

text \<open>\<open>G[..., np.newaxis]\<close>.\<close>

definition newaxis :: "'a ndarray \<Rightarrow> 'a ndarray" where
  "newaxis g = \<lparr>shape = shape g @ [1], item = (\<lambda>idx. item g (butlast idx))\<rparr>"

text \<open>
  The element of an array of shape \<open>gs\<close> that broadcasting pairs with the index \<open>idx\<close> of
  the result: axes are matched from the last one, and an axis of length 1 is repeated.
\<close>

definition bc_index :: "nat list \<Rightarrow> nat list \<Rightarrow> nat list" where
  "bc_index gs idx = map2 (\<lambda>d i. if d = 1 then 0 else i) gs (drop (length idx - length gs) idx)"

text \<open>\<open>c * G\<close> for a spectrum \<open>c\<close> and real weights \<open>G\<close> broadcast to it.\<close>

definition mul_weights :: "complex ndarray \<Rightarrow> real ndarray \<Rightarrow> complex ndarray" where
  "mul_weights c g =
     \<lparr>shape = shape c,
      item = (\<lambda>idx. item c idx * complex_of_real (item g (bc_index (shape g) idx)))\<rparr>"

definition gibbs_removal_2d ::
    "transforms \<Rightarrow> real ndarray \<Rightarrow> nat \<Rightarrow> real ndarray option \<Rightarrow> real ndarray option
     \<Rightarrow> real ndarray" where
  "gibbs_removal_2d T img n_points G0 G1 =
     (let (G0, G1) =
            (case (G0, G1) of
               (Some g0, Some g1) \<Rightarrow> (g0, g1)
             | _ \<Rightarrow> (let (g0, g1) = weights (take 2 (shape img))
                     in if length (shape img) > 2 then (newaxis g0, newaxis g1) else (g0, g1)));
          img_c1 = gibbs_removal_1d T img 1 n_points;
          img_c0 = gibbs_removal_1d T img 0 n_points;
          C1 = on_axes01 (fft2 T) (map_arr complex_of_real img_c1);
          C0 = on_axes01 (fft2 T) (map_arr complex_of_real img_c0);
          imagec = mul_weights (on_axes01 (fftshift T) C1) G1;
          imagec = map2_arr (+) imagec (mul_weights (on_axes01 (fftshift T) C0) G0);
          imagec = on_axes01 (ifft2 T) imagec
      in map_arr cmod imagec)"

subsection \<open>The volume driver: \<open>gibbs_removal\<close>\<close>

text \<open>\<open>np.swapaxes(vol, a, b)\<close>.\<close>

definition swapaxes :: "nat \<Rightarrow> nat \<Rightarrow> 'a ndarray \<Rightarrow> 'a ndarray" where
  "swapaxes a b x =
     \<lparr>shape = (shape x)[a := shape x ! b, b := shape x ! a],
      item = (\<lambda>idx. item x (idx[a := idx ! b, b := idx ! a]))\<rparr>"

text \<open>
  \<open>vol.reshape((s0, s1, s2 * s3))\<close> of a four-dimensional array of shape \<open>(s0, s1, s2, s3)\<close>
  and \<open>vol.reshape(inishap)\<close> back. Both are in C order, the last axis running fastest: the
  element \<open>[i, j, m]\<close> of the merged array is the element \<open>[i, j, m div s3, m mod s3]\<close>.
\<close>

definition reshape_merge :: "'a ndarray \<Rightarrow> 'a ndarray" where
  "reshape_merge x =
     (let s = shape x
      in \<lparr>shape = [s ! 0, s ! 1, s ! 2 * s ! 3],
          item = (\<lambda>idx. case idx of
                    i # j # m # t \<Rightarrow> item x (i # j # (m div s ! 3) # (m mod s ! 3) # t)
                  | _ \<Rightarrow> item x idx)\<rparr>)"

definition reshape_split :: "nat list \<Rightarrow> 'a ndarray \<Rightarrow> 'a ndarray" where
  "reshape_split inishap x =
     \<lparr>shape = inishap,
      item = (\<lambda>idx. case idx of
                i # j # k # g # t \<Rightarrow> item x (i # j # (k * inishap ! 3 + g) # t)
              | _ \<Rightarrow> item x idx)\<rparr>"

text \<open>
  The value reading of \<open>gibbs_removal\<close> on a volume of rank 2, 3 or 4 and a slice axis of at
  most 2; the other calls raise, see the descriptor reading.
\<close>

definition gibbs_removal :: "transforms \<Rightarrow> real ndarray \<Rightarrow> nat \<Rightarrow> nat \<Rightarrow> real ndarray" where
  "gibbs_removal T vol slice_axis n_points =
     (let nd = length (shape vol);
          vol = (if slice_axis < 2 \<and> nd > 2 then swapaxes slice_axis 2 vol else vol);
          inishap = shape vol;
          vol = (if nd = 4 then reshape_merge vol else vol);
          (G0, G1) = weights (take 2 (shape vol));
          G0 = (if nd > 2 then newaxis G0 else G0);
          G1 = (if nd > 2 then newaxis G1 else G1);
          vol = gibbs_removal_2d T vol n_points (Some G0) (Some G1);
          vol = (if nd = 4 then reshape_split inishap vol else vol)
      in if slice_axis < 2 \<and> nd > 2 then swapaxes slice_axis 2 vol else vol)"

text \<open>\<open>vol[..., g]\<close>: the sub-volume of one gradient direction.\<close>

definition subvolume :: "'a ndarray \<Rightarrow> nat \<Rightarrow> 'a ndarray" where
  "subvolume vol g = \<lparr>shape = butlast (shape vol), item = (\<lambda>idx. item vol (idx @ [g]))\<rparr>"

text \<open>
  The slice \<open>t\<close> of \<open>x\<close> and the slice \<open>u\<close> of \<open>y\<close> are one two-dimensional image: the first
  two lengths agree and so does every element.
\<close>

definition same_plane :: "'a ndarray \<Rightarrow> nat list \<Rightarrow> 'a ndarray \<Rightarrow> nat list \<Rightarrow> bool" where
  "same_plane x t y u =
     (2 \<le> length (shape x) \<and> 2 \<le> length (shape y) \<and>
      shape x ! 0 = shape y ! 0 \<and> shape x ! 1 = shape y ! 1 \<and>
      (\<forall>i j. item x (i # j # t) = item y (i # j # u)))"

text \<open>The arrays of two searches hold one image at the slices \<open>t\<close> and \<open>u\<close>.\<close>

definition same_state :: "search_state \<Rightarrow> nat list \<Rightarrow> search_state \<Rightarrow> nat list \<Rightarrow> bool" where
  "same_state st t st' u =
     (same_plane (isp st) t (isp st') u \<and> same_plane (isn st) t (isn st') u \<and>
      same_plane (sp st) t (sp st') u \<and> same_plane (sn st) t (sn st') u \<and>
      same_plane (tvp st) t (tvp st') u \<and> same_plane (tvn st) t (tvn st') u)"

text \<open>The part of \<open>gibbs_removal\<close> between the reshapes, on a batch of images.\<close>

definition corrected_batch :: "transforms \<Rightarrow> real ndarray \<Rightarrow> nat \<Rightarrow> real ndarray" where
  "corrected_batch T vol n_points =
     gibbs_removal_2d T vol n_points
       (Some (newaxis (fst (weights (take 2 (shape vol))))))
       (Some (newaxis (snd (weights (take 2 (shape vol))))))"

section \<open>The descriptor reading\<close>

text \<open>
  The same statements, followed with the shape and the dtype of every array and with the
  exceptions numpy raises on them. A descriptor has no element values: no branch and no
  exception of the module depends on one, except the length of the arrays selected by
  \<open>np.nonzero\<close>, which all have one common length.
\<close>

datatype dtype = Bool | Int16 | Int32 | Int64 | Float16 | Float32 | Float64 | Complex64 | Complex128

datatype kind = BoolK | IntK | FloatK | ComplexK

datatype error = ValueError | IndexError | TypeError | UFuncTypeError

record descr =
  dims :: "nat list"
  dtype :: dtype

fun kind_of :: "dtype \<Rightarrow> kind" where
  "kind_of Bool = BoolK"
| "kind_of Int16 = IntK" | "kind_of Int32 = IntK" | "kind_of Int64 = IntK"
| "kind_of Float16 = FloatK" | "kind_of Float32 = FloatK" | "kind_of Float64 = FloatK"
| "kind_of Complex64 = ComplexK" | "kind_of Complex128 = ComplexK"

fun kind_rank :: "kind \<Rightarrow> nat" where
  "kind_rank BoolK = 0" | "kind_rank IntK = 1" | "kind_rank FloatK = 2" | "kind_rank ComplexK = 3"

text \<open>
  The floating point precision a dtype needs: 0 for half, 1 for single, 2 for double (an
  \<open>int16\<close> fits single precision, the wider integers need double).
\<close>

fun precision :: "dtype \<Rightarrow> nat" where
  "precision Bool = 0"
| "precision Int16 = 1" | "precision Int32 = 2" | "precision Int64 = 2"
| "precision Float16 = 0" | "precision Float32 = 1" | "precision Float64 = 2"
| "precision Complex64 = 1" | "precision Complex128 = 2"

fun int_size :: "dtype \<Rightarrow> nat" where
  "int_size Int16 = 1" | "int_size Int32 = 2" | "int_size Int64 = 3" | "int_size _ = 0"

definition float_of :: "nat \<Rightarrow> dtype" where
  "float_of p = (if p = 0 then Float16 else if p = 1 then Float32 else Float64)"

definition complex_of :: "nat \<Rightarrow> dtype" where
  "complex_of p = (if p \<le> 1 then Complex64 else Complex128)"

text \<open>\<open>np.promote_types\<close> on these dtypes.\<close>

definition promote_types :: "dtype \<Rightarrow> dtype \<Rightarrow> dtype" where
  "promote_types a b =
     (let k = max (kind_rank (kind_of a)) (kind_rank (kind_of b));
          p = max (precision a) (precision b)
      in if k = 0 then Bool
         else if k = 1 then (if int_size a \<ge> int_size b then a else b)
         else if k = 2 then float_of p
         else complex_of p)"

text \<open>The dtype of \<open>np.abs\<close>: the magnitude of a complex number is a float.\<close>

definition abs_dtype :: "dtype \<Rightarrow> dtype" where
  "abs_dtype a = (if kind_of a = ComplexK then float_of (precision a) else a)"

text \<open>
  The dtype of a spectrum of \<open>scipy.fft\<close>: half precision is computed in single precision,
  integers in double precision.
\<close>

definition fft_dtype :: "dtype \<Rightarrow> dtype" where
  "fft_dtype a =
     (if kind_of a = BoolK \<or> kind_of a = IntK then Complex128 else complex_of (precision a))"

text \<open>
  An in-place ufunc call \<open>a op= b\<close> computes in the promoted dtype and must cast the result
  back to the dtype of \<open>a\<close> under the rule \<open>same_kind\<close>: never to a lower kind.
\<close>

definition can_cast_same_kind :: "dtype \<Rightarrow> dtype \<Rightarrow> bool" where
  "can_cast_same_kind src dst = (kind_rank (kind_of src) \<le> kind_rank (kind_of dst))"

definition thenE :: "error + 'a \<Rightarrow> ('a \<Rightarrow> error + 'b) \<Rightarrow> error + 'b" where
  "thenE m f = (case m of Inl e \<Rightarrow> Inl e | Inr a \<Rightarrow> f a)"

text \<open>Broadcasting of two shapes, read from the last axis; \<open>None\<close> when they do not fit.\<close>

fun broadcast_rev :: "nat list \<Rightarrow> nat list \<Rightarrow> nat list option" where
  "broadcast_rev [] ys = Some ys"
| "broadcast_rev xs [] = Some xs"
| "broadcast_rev (x # xs) (y # ys) =
     (case broadcast_rev xs ys of
        None \<Rightarrow> None
      | Some r \<Rightarrow> if x = y then Some (x # r)
                  else if x = 1 then Some (y # r)
                  else if y = 1 then Some (x # r)
                  else None)"

definition broadcast :: "nat list \<Rightarrow> nat list \<Rightarrow> nat list option" where
  "broadcast s1 s2 = map_option rev (broadcast_rev (rev s1) (rev s2))"

text \<open>A binary ufunc \<open>a op b\<close> whose result has the dtype \<open>dt\<close>.\<close>

definition binary :: "dtype \<Rightarrow> descr \<Rightarrow> descr \<Rightarrow> error + descr" where
  "binary dt a b =
     (case broadcast (dims a) (dims b) of
        None \<Rightarrow> Inl ValueError
      | Some s \<Rightarrow> Inr \<lparr>dims = s, dtype = dt\<rparr>)"

text \<open>\<open>a op= b\<close>: \<open>b\<close> must broadcast to the shape of \<open>a\<close>, and the result must cast back.\<close>

definition inplace :: "descr \<Rightarrow> descr \<Rightarrow> error + descr" where
  "inplace a b =
     (if broadcast (dims a) (dims b) \<noteq> Some (dims a) then Inl ValueError
      else if \<not> can_cast_same_kind (promote_types (dtype a) (dtype b)) (dtype a)
      then Inl UFuncTypeError
      else Inr a)"

text \<open>
  \<open>a[mask] = v[mask]\<close> and \<open>a[mask] = s\<close>: a boolean mask must have the shape of the array
  it indexes; the assignment casts to the dtype of \<open>a\<close> without a check.
\<close>

definition mask_index :: "descr \<Rightarrow> descr \<Rightarrow> error + unit" where
  "mask_index a m = (if dims m = dims a then Inr () else Inl IndexError)"

definition d_transpose01 :: "descr \<Rightarrow> descr" where
  "d_transpose01 x = x\<lparr>dims := (case dims x of a # b # r \<Rightarrow> b # a # r | s \<Rightarrow> s)\<rparr>"

definition d_slice1 :: "int option \<Rightarrow> int option \<Rightarrow> descr \<Rightarrow> descr" where
  "d_slice1 start stop x =
     (let len = dims x ! 1;
          a = (case start of None \<Rightarrow> 0 | Some s \<Rightarrow> slice_bound len s);
          b = (case stop of None \<Rightarrow> len | Some s \<Rightarrow> slice_bound len s)
      in x\<lparr>dims := (dims x)[1 := b - a]\<rparr>)"

definition d_concatenate1 :: "descr \<Rightarrow> descr \<Rightarrow> descr \<Rightarrow> descr" where
  "d_concatenate1 a b c = b\<lparr>dims := (dims b)[1 := dims a ! 1 + dims b ! 1 + dims c ! 1]\<rparr>"

text \<open>\<open>np.abs(a - b)\<close>; numpy has no subtraction of booleans.\<close>

definition d_abs_diff :: "descr \<Rightarrow> descr \<Rightarrow> error + descr" where
  "d_abs_diff a b =
     (if promote_types (dtype a) (dtype b) = Bool then Inl TypeError
      else binary (abs_dtype (promote_types (dtype a) (dtype b))) a b)"

subsection \<open>\<open>_image_tv\<close>\<close>

definition d_tv_step :: "descr \<Rightarrow> int \<Rightarrow> nat \<Rightarrow> descr \<times> descr \<Rightarrow> error + descr \<times> descr" where
  "d_tv_step xs np n acc =
     (case acc of (ptv, ntv) \<Rightarrow>
        thenE (d_abs_diff (d_slice1 (Some (np + 1 + int n)) (Some (- np - 1 + int n)) xs)
                          (d_slice1 (Some (np + 2 + int n)) (Some (- np + int n)) xs)) (\<lambda>dp.
        thenE (inplace ptv dp) (\<lambda>ptv.
        thenE (d_abs_diff (d_slice1 (Some (np + 1 - int n)) (Some (- np - 1 - int n)) xs)
                          (d_slice1 (Some (np - int n)) (Some (- np - 2 - int n)) xs)) (\<lambda>dn.
        thenE (inplace ntv dn) (\<lambda>ntv.
        Inr (ptv, ntv))))))"

text \<open>A loop whose body may raise.\<close>

fun foldE :: "('b \<Rightarrow> 'a \<Rightarrow> error + 'a) \<Rightarrow> 'b list \<Rightarrow> 'a \<Rightarrow> error + 'a" where
  "foldE f [] a = Inr a"
| "foldE f (x # xs) a = thenE (f x a) (foldE f xs)"

definition d_image_tv :: "descr \<Rightarrow> nat \<Rightarrow> nat \<Rightarrow> error + descr \<times> descr" where
  "d_image_tv x axis n_points =
     (let np = int n_points;
          xs = (if axis \<noteq> 0 then x else d_transpose01 x);
          xs = d_concatenate1 (d_slice1 (Some (- np - 1)) None xs) xs
                 (d_slice1 (Some 0) (Some (np + 1)) xs)
      in thenE (d_abs_diff (d_slice1 (Some (np + 1)) (Some (- np - 1)) xs)
                           (d_slice1 (Some (np + 2)) (Some (- np)) xs)) (\<lambda>ptv.
         thenE (d_abs_diff (d_slice1 (Some (np + 1)) (Some (- np - 1)) xs)
                           (d_slice1 (Some np) (Some (- np - 2)) xs)) (\<lambda>ntv.
         thenE (foldE (d_tv_step xs np) [1..<n_points] (ptv, ntv)) (\<lambda>(ptv, ntv).
         if axis = 0 then Inr (d_transpose01 ptv, d_transpose01 ntv) else Inr (ptv, ntv)))))"

text \<open>
  \<open>fft2(x, axes=(0, 1))\<close> and \<open>ifft2(x, axes=(0, 1))\<close> of the dependency: they keep the
  shape and refuse an axis without data points. \<open>fftshift\<close> keeps the descriptor.
\<close>

definition d_fft2 :: "descr \<Rightarrow> error + descr" where
  "d_fft2 x =
     (if dims x ! 0 = 0 \<or> dims x ! 1 = 0 then Inl ValueError
      else Inr (x\<lparr>dtype := fft_dtype (dtype x)\<rparr>))"

subsection \<open>\<open>_gibbs_removal_1d\<close>\<close>

text \<open>The descriptors of the arrays the loop updates in place.\<close>

record d_search_state =
  d_isp :: descr
  d_isn :: descr
  d_sp :: descr
  d_sn :: descr
  d_tvp :: descr
  d_tvn :: descr

text \<open>\<open>np.minimum(tvr, tvl)\<close> of the two fields of \<open>_image_tv\<close>.\<close>

definition d_tv_score :: "descr \<Rightarrow> nat \<Rightarrow> error + descr" where
  "d_tv_score img n_points =
     thenE (d_image_tv img 1 n_points) (\<lambda>(tvr, tvl).
     binary (promote_types (dtype tvr) (dtype tvl)) tvr tvl)"

text \<open>\<open>np.abs(ifft2(fftshift(c * eks, axes=(0, 1)), axes=(0, 1)))\<close>.\<close>

definition d_shifted :: "descr \<Rightarrow> descr \<Rightarrow> error + descr" where
  "d_shifted c eks =
     thenE (binary (promote_types (dtype c) (dtype eks)) c eks) (\<lambda>img.
     thenE (d_fft2 img) (\<lambda>img.
     Inr (img\<lparr>dtype := abs_dtype (dtype img)\<rparr>)))"

text \<open>
  The body of \<open>for s in ssamp\<close>. The masked assignments write into the arrays of the state
  and leave their descriptors as they are.
\<close>

definition d_search_step :: "nat \<Rightarrow> descr \<Rightarrow> descr \<Rightarrow> real \<Rightarrow> d_search_state
    \<Rightarrow> error + d_search_state" where
  "d_search_step n_points c k s st =
     (let eks = k in
      thenE (d_shifted c eks) (\<lambda>img_p.
      thenE (d_tv_score img_p n_points) (\<lambda>tvs_p.
      thenE (d_shifted c eks) (\<lambda>img_n.
      thenE (d_tv_score img_n n_points) (\<lambda>tvs_n.
      thenE (binary Bool (d_tvp st) tvs_p) (\<lambda>maskp.
      thenE (binary Bool (d_tvn st) tvs_n) (\<lambda>maskn.
      thenE (mask_index (d_isp st) maskp) (\<lambda>_.
      thenE (mask_index img_p maskp) (\<lambda>_.
      thenE (mask_index (d_sp st) maskp) (\<lambda>_.
      thenE (mask_index (d_tvp st) maskp) (\<lambda>_.
      thenE (mask_index tvs_p maskp) (\<lambda>_.
      thenE (mask_index (d_isn st) maskn) (\<lambda>_.
      thenE (mask_index img_n maskn) (\<lambda>_.
      thenE (mask_index (d_sn st) maskn) (\<lambda>_.
      thenE (mask_index (d_tvn st) maskn) (\<lambda>_.
      thenE (mask_index tvs_n maskn) (\<lambda>_.
      Inr st)))))))))))))))))"

text \<open>
  The in-place arithmetic on \<open>tmp\<close> after the loop. The arrays selected by \<open>idx\<close> have one
  length, so only their dtypes can fail: \<open>tmp\<close> has the dtype \<open>dx\<close> of the input and the
  shifts the dtype \<open>fd\<close>.
\<close>

definition d_interpolate :: "dtype \<Rightarrow> dtype \<Rightarrow> error + dtype" where
  "d_interpolate dx fd =
     (if promote_types dx dx = Bool then Inl TypeError
      else if \<not> can_cast_same_kind (promote_types dx (promote_types fd fd)) dx
      then Inl UFuncTypeError
      else if \<not> can_cast_same_kind (promote_types dx fd) dx then Inl UFuncTypeError
      else if \<not> can_cast_same_kind (promote_types dx dx) dx then Inl UFuncTypeError
      else Inr dx)"

text \<open>
  \<open>k = np.linspace(-N/2, N/2-1, num=N, dtype=float_dtype); k = (2.0j * np.pi * k) / N\<close>,
  then \<open>k[np.newaxis, :]\<close> for a two-dimensional \<open>xs\<close> and \<open>k[np.newaxis, :, np.newaxis]\<close>
  for a three-dimensional one.
\<close>

definition d_phase_ramp :: "nat \<Rightarrow> nat \<Rightarrow> dtype \<Rightarrow> descr" where
  "d_phase_ramp ndim N float_dtype =
     (let k = \<lparr>dims = [N], dtype = complex_of (precision float_dtype)\<rparr>
      in if ndim = 2 then k\<lparr>dims := [1, N]\<rparr>
         else if ndim = 3 then k\<lparr>dims := [1, N, 1]\<rparr>
         else k)"

definition d_gibbs_removal_1d :: "descr \<Rightarrow> nat \<Rightarrow> nat \<Rightarrow> error + descr" where
  "d_gibbs_removal_1d x axis n_points =
     (let float_dtype = promote_types (dtype x) Float32;
          xs = (if axis \<noteq> 0 then x else d_transpose01 x)
      in thenE (d_tv_score xs n_points) (\<lambda>tvp.
         let tvn = tvp;
             isp = xs;
             isn = xs;
             sp = \<lparr>dims = dims xs, dtype = float_dtype\<rparr>;
             sn = \<lparr>dims = dims xs, dtype = float_dtype\<rparr>;
             N = dims xs ! 1
         in thenE (d_fft2 xs) (\<lambda>c.
            let k = d_phase_ramp (length (dims xs)) N float_dtype
            in thenE (foldE (d_search_step n_points c k) ssamp
                        \<lparr>d_isp = isp, d_isn = isn, d_sp = sp, d_sn = sn,
                         d_tvp = tvp, d_tvn = tvn\<rparr>) (\<lambda>st.
               thenE (binary (promote_types (dtype (d_sp st)) (dtype (d_sn st)))
                        (d_sp st) (d_sn st)) (\<lambda>_.
               thenE (d_interpolate (dtype xs) float_dtype) (\<lambda>_.
               if axis = 0 then Inr (d_transpose01 xs) else Inr xs))))))"

subsection \<open>\<open>_weights\<close>\<close>

text \<open>
  The module calls \<open>_weights\<close> with the first two lengths of a shape. The subscripts \<open>0\<close>
  and \<open>-1\<close> of the boundary assignments need an entry on each axis.
\<close>

definition d_weights :: "nat list \<Rightarrow> dtype \<Rightarrow> error + descr \<times> descr" where
  "d_weights shp image_dtype =
     (let dt = promote_types Float32 image_dtype
      in if length shp < 2 then Inl IndexError
         else if shp ! 0 = 0 \<or> shp ! 1 = 0 then Inl IndexError
         else Inr (\<lparr>dims = shp, dtype = dt\<rparr>, \<lparr>dims = shp, dtype = dt\<rparr>))"

text \<open>\<open>G[..., np.newaxis]\<close>.\<close>

definition d_newaxis :: "descr \<Rightarrow> descr" where
  "d_newaxis g = g\<lparr>dims := dims g @ [1]\<rparr>"

subsection \<open>\<open>_gibbs_removal_2d\<close>\<close>

definition d_gibbs_removal_2d :: "descr \<Rightarrow> nat \<Rightarrow> descr option \<Rightarrow> descr option \<Rightarrow> error + descr" where
  "d_gibbs_removal_2d img n_points G0 G1 =
     thenE (case (G0, G1) of
              (Some g0, Some g1) \<Rightarrow> Inr (g0, g1)
            | _ \<Rightarrow> thenE (d_weights (take 2 (dims img)) (dtype img)) (\<lambda>(g0, g1).
                     if length (dims img) > 2 then Inr (d_newaxis g0, d_newaxis g1)
                     else Inr (g0, g1))) (\<lambda>(G0, G1).
     if length (dims img) \<noteq> 2 \<and> length (dims img) \<noteq> 3 then Inl ValueError
     else
       thenE (d_gibbs_removal_1d img 1 n_points) (\<lambda>img_c1.
       thenE (d_gibbs_removal_1d img 0 n_points) (\<lambda>img_c0.
       thenE (d_fft2 img_c1) (\<lambda>C1.
       thenE (d_fft2 img_c0) (\<lambda>C0.
       thenE (binary (promote_types (dtype C1) (dtype G1)) C1 G1) (\<lambda>imagec.
       thenE (binary (promote_types (dtype C0) (dtype G0)) C0 G0) (\<lambda>t.
       thenE (inplace imagec t) (\<lambda>imagec.
       thenE (d_fft2 imagec) (\<lambda>imagec.
       if \<not> can_cast_same_kind (abs_dtype (dtype imagec)) (dtype imagec) then Inl UFuncTypeError
       else Inr imagec)))))))))"

subsection \<open>\<open>gibbs_removal\<close>\<close>

definition d_swapaxes :: "nat \<Rightarrow> nat \<Rightarrow> descr \<Rightarrow> descr" where
  "d_swapaxes a b x = x\<lparr>dims := (dims x)[a := dims x ! b, b := dims x ! a]\<rparr>"

text \<open>\<open>vol.reshape(shp)\<close>: the number of elements must stay.\<close>

definition d_reshape :: "nat list \<Rightarrow> descr \<Rightarrow> error + descr" where
  "d_reshape shp x = (if prod_list shp = prod_list (dims x) then Inr (x\<lparr>dims := shp\<rparr>) else Inl ValueError)"

definition d_gibbs_removal :: "descr \<Rightarrow> nat \<Rightarrow> nat \<Rightarrow> error + descr" where
  "d_gibbs_removal vol slice_axis n_points =
     (let nd = length (dims vol)
      in if slice_axis > 2 then Inl ValueError
         else
           let vol = (if slice_axis < 2 \<and> nd > 2 then d_swapaxes slice_axis 2 vol else vol);
               inishap = dims vol
           in thenE (if nd = 4
                     then d_reshape [inishap ! 0, inishap ! 1, inishap ! 2 * inishap ! 3] vol
                     else if nd > 4 then Inl ValueError
                     else if nd < 2 then Inl ValueError
                     else Inr vol) (\<lambda>vol.
              thenE (d_weights (take 2 (dims vol)) (dtype vol)) (\<lambda>(G0, G1).
              let G0 = (if nd > 2 then d_newaxis G0 else G0);
                  G1 = (if nd > 2 then d_newaxis G1 else G1)
              in thenE (d_gibbs_removal_2d vol n_points (Some G0) (Some G1)) (\<lambda>vol.
                 thenE (if nd = 4 then d_reshape inishap vol else Inr vol) (\<lambda>vol.
                 if slice_axis < 2 \<and> nd > 2 then Inr (d_swapaxes slice_axis 2 vol)
                 else Inr vol)))))"

text \<open>
  The lengths of the two axes \<open>_gibbs_removal_2d\<close> corrects: the first two of the volume
  once the slice axis has been swapped to position 2.
\<close>

definition plane :: "descr \<Rightarrow> nat \<Rightarrow> nat \<times> nat" where
  "plane vol slice_axis =
     (let d = dims (if slice_axis < 2 \<and> length (dims vol) > 2
                    then d_swapaxes slice_axis 2 vol else vol)
      in (d ! 0, d ! 1))"

text \<open>The call on a volume of rank 2, 3 or 4 whose slice axis is already at position 2.\<close>

definition d_core :: "descr \<Rightarrow> nat \<Rightarrow> error + descr" where
  "d_core vol n_points =
     (let nd = length (dims vol); inishap = dims vol
      in thenE (if nd = 4
                then d_reshape [inishap ! 0, inishap ! 1, inishap ! 2 * inishap ! 3] vol
                else if nd > 4 then Inl ValueError
                else if nd < 2 then Inl ValueError
                else Inr vol) (\<lambda>vol.
         thenE (d_weights (take 2 (dims vol)) (dtype vol)) (\<lambda>(G0, G1).
         let G0 = (if nd > 2 then d_newaxis G0 else G0);
             G1 = (if nd > 2 then d_newaxis G1 else G1)
         in thenE (d_gibbs_removal_2d vol n_points (Some G0) (Some G1)) (\<lambda>vol.
            (if nd = 4 then d_reshape inishap vol else Inr vol)))))"

section \<open>The aliasing reading\<close>

text \<open>
  The same statements once more, followed with the memory each array name refers to. A
  buffer is a number; the heap counts the in-place writes every buffer has received. A
  statement either makes a new array in a fresh buffer (\<open>copy\<close>, \<open>np.concatenate\<close>,
  arithmetic, \<open>np.abs\<close>, \<open>np.minimum\<close>, the transforms, \<open>np.zeros\<close>, \<open>np.linspace\<close>,
  indexing with a mask or with \<open>np.nonzero\<close>), or gives a view of the buffer it is applied to
  (\<open>transpose\<close>, \<open>np.swapaxes\<close>, a slice, \<open>np.newaxis\<close>), or writes in place (\<open>+=\<close>, \<open>/=\<close>,
  \<open>*=\<close>, an assignment to a subscript, \<open>out=\<close>). A temporary that no name holds is neither
  written to nor returned and has no buffer here. Exceptions are left out: a call that raises
  has made a part of these writes.
\<close>

record heap =
  next_id :: nat
  version :: "nat \<Rightarrow> nat"

type_synonym 'a effect = "heap \<Rightarrow> 'a \<times> heap"

definition fresh :: "nat effect" where
  "fresh h = (next_id h, h\<lparr>next_id := Suc (next_id h)\<rparr>)"

definition wr :: "nat \<Rightarrow> unit effect" where
  "wr b h = ((), h\<lparr>version := (version h)(b := Suc (version h b))\<rparr>)"

definition ret :: "'a \<Rightarrow> 'a effect" where
  "ret a h = (a, h)"

definition andThen :: "'a effect \<Rightarrow> ('a \<Rightarrow> 'b effect) \<Rightarrow> 'b effect" where
  "andThen m f h = (case m h of (a, h') \<Rightarrow> f a h')"

text \<open>A loop: the body for every element in turn.\<close>

fun each :: "('b \<Rightarrow> unit effect) \<Rightarrow> 'b list \<Rightarrow> unit effect" where
  "each f [] = ret ()"
| "each f (x # xs) = andThen (f x) (\<lambda>_. each f xs)"

subsection \<open>\<open>_image_tv\<close>\<close>

definition a_image_tv :: "nat \<Rightarrow> nat \<Rightarrow> nat \<Rightarrow> (nat \<times> nat) effect" where
  "a_image_tv x axis n_points =
     (let xs = x \<comment> \<open>\<open>xs = x\<close> or a transposed view\<close>
      in andThen fresh (\<lambda>xs. \<comment> \<open>\<open>xs = np.concatenate(...)\<close>\<close>
         andThen fresh (\<lambda>ptv. \<comment> \<open>\<open>ptv = np.abs(...)\<close>\<close>
         andThen fresh (\<lambda>ntv. \<comment> \<open>\<open>ntv = np.abs(...)\<close>\<close>
         andThen (each (\<lambda>n.
                    andThen (wr ptv) (\<lambda>_. \<comment> \<open>\<open>ptv += np.abs(...)\<close>\<close>
                    wr ntv)) \<comment> \<open>\<open>ntv += np.abs(...)\<close>\<close>
                  [1..<n_points]) (\<lambda>_.
         ret (ptv, ntv)))))) \<comment> \<open>as they are, or transposed views of them\<close>"

subsection \<open>\<open>_gibbs_removal_1d\<close>\<close>

definition a_shifted :: "nat \<Rightarrow> nat \<Rightarrow> nat effect" where
  "a_shifted c eks =
     andThen fresh (\<lambda>img. \<comment> \<open>\<open>img = c * eks\<close>\<close>
     andThen fresh (\<lambda>img. \<comment> \<open>\<open>img = fftshift(img, axes=(0, 1))\<close>\<close>
     andThen fresh (\<lambda>img. \<comment> \<open>\<open>img = ifft2(img, axes=(0, 1))\<close>\<close>
     fresh))) \<comment> \<open>\<open>img = np.abs(img)\<close>\<close>"

definition a_tv_score :: "nat \<Rightarrow> nat \<Rightarrow> nat effect" where
  "a_tv_score img n_points =
     andThen (a_image_tv img 1 n_points) (\<lambda>(tvsr, tvsl).
     fresh) \<comment> \<open>\<open>np.minimum(tvsr, tvsl)\<close>\<close>"

definition a_search_step :: "nat \<Rightarrow> nat \<Rightarrow> nat \<Rightarrow> nat \<times> nat \<times> nat \<times> nat \<times> nat \<times> nat
    \<Rightarrow> real \<Rightarrow> unit effect" where
  "a_search_step n_points c k st s =
     (case st of (isp', isn', sp', sn', tvp', tvn') \<Rightarrow>
        andThen fresh (\<lambda>ks. \<comment> \<open>\<open>ks = k * s\<close>\<close>
        andThen fresh (\<lambda>eks. \<comment> \<open>\<open>eks = np.exp(ks)\<close>\<close>
        andThen (a_shifted c eks) (\<lambda>img_p.
        andThen (a_tv_score img_p n_points) (\<lambda>tvs_p.
        andThen (a_shifted c eks) (\<lambda>img_n. \<comment> \<open>on \<open>c * np.conj(eks)\<close>\<close>
        andThen (a_tv_score img_n n_points) (\<lambda>tvs_n.
        andThen fresh (\<lambda>maskp. \<comment> \<open>\<open>maskp = tvp > tvs_p\<close>\<close>
        andThen fresh (\<lambda>maskn. \<comment> \<open>\<open>maskn = tvn > tvs_n\<close>\<close>
        andThen (wr isp') (\<lambda>_. \<comment> \<open>\<open>isp[maskp] = img_p[maskp]\<close>\<close>
        andThen (wr sp') (\<lambda>_. \<comment> \<open>\<open>sp[maskp] = s\<close>\<close>
        andThen (wr tvp') (\<lambda>_. \<comment> \<open>\<open>tvp[maskp] = tvs_p[maskp]\<close>\<close>
        andThen (wr isn') (\<lambda>_. \<comment> \<open>\<open>isn[maskn] = img_n[maskn]\<close>\<close>
        andThen (wr sn') (\<lambda>_. \<comment> \<open>\<open>sn[maskn] = s\<close>\<close>
        wr tvn')))))))))))))) \<comment> \<open>\<open>tvn[maskn] = tvs_n[maskn]\<close>\<close>"

definition a_gibbs_removal_1d :: "nat \<Rightarrow> nat \<Rightarrow> nat \<Rightarrow> nat effect" where
  "a_gibbs_removal_1d x axis n_points =
     andThen fresh (\<lambda>xs. \<comment> \<open>\<open>xs = x.copy()\<close> or \<open>x.transpose(...).copy()\<close>\<close>
     andThen (a_image_tv xs 1 n_points) (\<lambda>(tvr, tvl).
     andThen fresh (\<lambda>tvp. \<comment> \<open>\<open>tvp = np.minimum(tvr, tvl)\<close>\<close>
     andThen fresh (\<lambda>tvn. \<comment> \<open>\<open>tvn = tvp.copy()\<close>\<close>
     andThen fresh (\<lambda>isp. \<comment> \<open>\<open>isp = xs.copy()\<close>\<close>
     andThen fresh (\<lambda>isn. \<comment> \<open>\<open>isn = xs.copy()\<close>\<close>
     andThen fresh (\<lambda>sp. \<comment> \<open>\<open>sp = np.zeros(...)\<close>\<close>
     andThen fresh (\<lambda>sn. \<comment> \<open>\<open>sn = np.zeros(...)\<close>\<close>
     andThen fresh (\<lambda>c. \<comment> \<open>\<open>c = fft2(xs, axes=(0, 1))\<close>\<close>
     andThen fresh (\<lambda>c. \<comment> \<open>\<open>c = fftshift(c, axes=(0, 1))\<close>\<close>
     andThen fresh (\<lambda>k. \<comment> \<open>\<open>k = np.linspace(...)\<close>\<close>
     andThen fresh (\<lambda>k. \<comment> \<open>\<open>k = (2.0j * np.pi * k) / N\<close>, then a view with new axes\<close>
     andThen (each (a_search_step n_points c k (isp, isn, sp, sn, tvp, tvn)) ssamp) (\<lambda>_.
     andThen fresh (\<lambda>sn_i. \<comment> \<open>\<open>sn_i = sn[idx]\<close>\<close>
     andThen fresh (\<lambda>isn_i. \<comment> \<open>\<open>isn_i = isn[idx]\<close>\<close>
     andThen fresh (\<lambda>tmp. \<comment> \<open>\<open>tmp = isp[idx] - isn_i\<close>\<close>
     andThen (wr tmp) (\<lambda>_. \<comment> \<open>\<open>tmp /= sp[idx] + sn_i\<close>\<close>
     andThen (wr tmp) (\<lambda>_. \<comment> \<open>\<open>tmp *= sn_i\<close>\<close>
     andThen (wr tmp) (\<lambda>_. \<comment> \<open>\<open>tmp += isn_i\<close>\<close>
     andThen (wr xs) (\<lambda>_. \<comment> \<open>\<open>xs[idx] = tmp\<close>\<close>
     ret xs)))))))))))))))))))) \<comment> \<open>\<open>xs\<close> or a transposed view of it\<close>"

subsection \<open>\<open>_weights\<close>\<close>

definition a_weights :: "(nat \<times> nat) effect" where
  "a_weights =
     andThen fresh (\<lambda>G0. \<comment> \<open>\<open>G0 = np.zeros(shape)\<close>\<close>
     andThen fresh (\<lambda>G1. \<comment> \<open>\<open>G1 = np.zeros(shape)\<close>\<close>
     andThen (wr G1) (\<lambda>_. \<comment> \<open>\<open>G1[1:-1, 1:-1] = ...\<close>\<close>
     andThen (wr G0) (\<lambda>_. \<comment> \<open>\<open>G0[1:-1, 1:-1] = ...\<close>\<close>
     andThen (each (\<lambda>_. wr G1) [0 ..< 6]) (\<lambda>_. \<comment> \<open>the six boundary assignments to \<open>G1\<close>\<close>
     andThen (each (\<lambda>_. wr G0) [0 ..< 6]) (\<lambda>_. \<comment> \<open>the six boundary assignments to \<open>G0\<close>\<close>
     ret (G0, G1)))))))"

subsection \<open>\<open>_gibbs_removal_2d\<close>\<close>

definition a_gibbs_removal_2d :: "nat \<Rightarrow> nat \<Rightarrow> (nat \<times> nat) option \<Rightarrow> nat effect" where
  "a_gibbs_removal_2d img n_points G =
     andThen (case G of
                Some g \<Rightarrow> ret g
              | None \<Rightarrow> a_weights) (\<lambda>(G0, G1). \<comment> \<open>and views of them with a new axis\<close>
     andThen (a_gibbs_removal_1d img 1 n_points) (\<lambda>img_c1.
     andThen (a_gibbs_removal_1d img 0 n_points) (\<lambda>img_c0.
     andThen fresh (\<lambda>C1. \<comment> \<open>\<open>C1 = fft2(img_c1, axes=(0, 1))\<close>\<close>
     andThen fresh (\<lambda>C0. \<comment> \<open>\<open>C0 = fft2(img_c0, axes=(0, 1))\<close>\<close>
     andThen fresh (\<lambda>imagec. \<comment> \<open>\<open>imagec = fftshift(C1, axes=(0, 1)) * G1\<close>\<close>
     andThen (wr imagec) (\<lambda>_. \<comment> \<open>\<open>imagec += fftshift(C0, axes=(0, 1)) * G0\<close>\<close>
     andThen fresh (\<lambda>imagec. \<comment> \<open>\<open>imagec = ifft2(imagec, axes=(0, 1))\<close>\<close>
     andThen (wr imagec) (\<lambda>_. \<comment> \<open>\<open>np.abs(imagec, out=imagec)\<close>\<close>
     ret imagec)))))))))"

subsection \<open>\<open>gibbs_removal\<close>\<close>

text \<open>
  \<open>vol.reshape(...)\<close> gives a view when the memory layout allows it and a copy otherwise;
  \<open>reshape_copies\<close> says which.
\<close>

definition a_reshape :: "bool \<Rightarrow> nat \<Rightarrow> nat effect" where
  "a_reshape reshape_copies vol = (if reshape_copies then fresh else ret vol)"

definition a_gibbs_removal :: "bool \<Rightarrow> nat \<Rightarrow> nat \<Rightarrow> nat \<Rightarrow> nat \<Rightarrow> nat effect" where
  "a_gibbs_removal reshape_copies nd vol slice_axis n_points =
     (let vol = vol \<comment> \<open>\<open>vol = np.swapaxes(vol, slice_axis, 2)\<close>, a view, or \<open>vol\<close> itself\<close>
      in andThen (if nd = 4 then a_reshape reshape_copies vol else ret vol) (\<lambda>vol.
         andThen a_weights (\<lambda>(G0, G1). \<comment> \<open>and views of them with a new axis\<close>
         andThen (a_gibbs_removal_2d vol n_points (Some (G0, G1))) (\<lambda>vol.
         andThen (if nd = 4 then a_reshape reshape_copies vol else ret vol) (\<lambda>vol.
         ret vol))))) \<comment> \<open>\<open>vol\<close> or the view \<open>np.swapaxes(vol, slice_axis, 2)\<close>\<close>"

text \<open>
  From \<open>h\<close> to \<open>h'\<close> no buffer that existed in \<open>h\<close> has been written, and no buffer has been
  given up.
\<close>

definition untouched :: "heap \<Rightarrow> heap \<Rightarrow> bool" where
  "untouched h h' = (next_id h \<le> next_id h' \<and> (\<forall>b < next_id h. version h' b = version h b))"

text \<open>
  Started on a heap whose buffers from \<open>base\<close> on are its own, \<open>m\<close> leaves the buffers below
  \<open>base\<close> as they are and returns a result that satisfies \<open>Q\<close>.
\<close>

definition confined :: "nat \<Rightarrow> 'a effect \<Rightarrow> ('a \<Rightarrow> bool) \<Rightarrow> bool" where
  "confined base m Q =
     (\<forall>h. base \<le> next_id h \<longrightarrow>
        (case m h of (a, h') \<Rightarrow>
           next_id h \<le> next_id h' \<and> (\<forall>b < base. version h' b = version h b) \<and> Q a))"

section \<open>Properties of the value reading\<close>

subsection \<open>Local total variation\<close>

lemma item_transpose01 [simp]: "item (transpose01 x) (i # j # t) = item x (j # i # t)"
  by (simp add: transpose01_def)

lemma shape_transpose01 [simp]: "shape x = a # b # r \<Longrightarrow> shape (transpose01 x) = b # a # r"
  by (simp add: transpose01_def)

lemma item_slice1 [simp]:
  "item (slice1 (Some s) e x) (i # j # t) = item x (i # (j + slice_bound (shape x ! 1) s) # t)"
  by (simp add: slice1_def Let_def)

lemma shape_slice1 [simp]:
  "shape x = h # l # r \<Longrightarrow>
   shape (slice1 (Some s) (Some e) x) = h # (slice_bound l e - slice_bound l s) # r"
  by (simp add: slice1_def Let_def)

lemma shape_slice1_None [simp]:
  "shape x = h # l # r \<Longrightarrow> shape (slice1 (Some s) None x) = h # (l - slice_bound l s) # r"
  by (simp add: slice1_def Let_def)

lemma shape_concatenate1 [simp]:
  "shape a = h # la # r \<Longrightarrow> shape b = h # lb # r \<Longrightarrow> shape c = h # lc # r \<Longrightarrow>
   shape (concatenate1 a b c) = h # (la + lb + lc) # r"
  by (simp add: concatenate1_def Let_def)

lemma item_concatenate1:
  "item (concatenate1 a b c) (i # j # t) =
     (if j < shape a ! 1 then item a (i # j # t)
      else if j < shape a ! 1 + shape b ! 1 then item b (i # (j - shape a ! 1) # t)
      else item c (i # (j - shape a ! 1 - shape b ! 1) # t))"
  by (simp add: concatenate1_def Let_def)

lemma item_abs_diff [simp]: "item (abs_diff a b) idx = \<bar>item a idx - item b idx\<bar>"
  by (simp add: abs_diff_def)

lemma shape_abs_diff [simp]: "shape (abs_diff a b) = shape a"
  by (simp add: abs_diff_def)

lemma item_add [simp]: "item (add a b) idx = item a idx + item b idx"
  by (simp add: add_def)

lemma shape_add [simp]: "shape (add a b) = shape a"
  by (simp add: add_def)

lemma shape_padded:
  assumes "shape xs = h # l # r" "n + 1 \<le> l"
  shows "shape (padded xs n) = h # (l + 2 * n + 2) # r"
  using assms by (simp add: padded_def slice_bound_def)

lemma item_padded:
  assumes "shape xs = h # l # r" "n + 1 \<le> l" "j < l + 2 * n + 2"
  shows "item (padded xs n) (i # j # t) = item xs (i # ((j + l - (n + 1)) mod l) # t)"
proof -
  have la: "shape (slice1 (Some (- int n - 1)) None xs) ! 1 = n + 1"
    using assms by (simp add: slice_bound_def)
  have sb: "slice_bound l (- int n - 1) = l - (n + 1)"
    using assms by (simp add: slice_bound_def nat_diff_distrib')
  consider "j < n + 1" | "n + 1 \<le> j" "j < n + 1 + l" | "n + 1 + l \<le> j" by linarith
  then show ?thesis
  proof cases
    case 1
    then have "(j + l - (n + 1)) mod l = j + (l - (n + 1))" using assms by simp
    with 1 show ?thesis using assms la sb by (simp add: padded_def item_concatenate1)
  next
    case 2
    then have "(j + l - (n + 1)) mod l = j - (n + 1)"
      using assms by (simp add: mod_if)
    with 2 show ?thesis using assms la by (simp add: padded_def item_concatenate1)
  next
    case 3
    then have "(j + l - (n + 1)) mod l = j - (n + 1) - l"
      using assms by (simp add: mod_if)
    with 3 show ?thesis using assms la by (simp add: padded_def item_concatenate1 slice_bound_def)
  qed
qed

lemma fst_tv_step [simp]:
  "item (fst (tv_step xs np k (p, q))) (i # j # t) =
     item p (i # j # t) +
     \<bar>item xs (i # (j + slice_bound (shape xs ! 1) (np + 1 + int k)) # t)
      - item xs (i # (j + slice_bound (shape xs ! 1) (np + 2 + int k)) # t)\<bar>"
  by (simp add: tv_step_def)

lemma snd_tv_step [simp]:
  "item (snd (tv_step xs np k (p, q))) (i # j # t) =
     item q (i # j # t) +
     \<bar>item xs (i # (j + slice_bound (shape xs ! 1) (np + 1 - int k)) # t)
      - item xs (i # (j + slice_bound (shape xs ! 1) (np - int k)) # t)\<bar>"
  by (simp add: tv_step_def)

lemma shape_tv_step [simp]:
  "shape (fst (tv_step xs np k (p, q))) = shape p"
  "shape (snd (tv_step xs np k (p, q))) = shape q"
  by (simp_all add: tv_step_def)

lemma fold_tv_step:
  "item (fst (fold (tv_step xs np) ks (p, q))) (i # j # t) =
     item p (i # j # t) +
     (\<Sum>k\<leftarrow>ks. \<bar>item xs (i # (j + slice_bound (shape xs ! 1) (np + 1 + int k)) # t)
      - item xs (i # (j + slice_bound (shape xs ! 1) (np + 2 + int k)) # t)\<bar>) \<and>
   item (snd (fold (tv_step xs np) ks (p, q))) (i # j # t) =
     item q (i # j # t) +
     (\<Sum>k\<leftarrow>ks. \<bar>item xs (i # (j + slice_bound (shape xs ! 1) (np + 1 - int k)) # t)
      - item xs (i # (j + slice_bound (shape xs ! 1) (np - int k)) # t)\<bar>) \<and>
   shape (fst (fold (tv_step xs np) ks (p, q))) = shape p \<and>
   shape (snd (fold (tv_step xs np) ks (p, q))) = shape q"
proof (induction ks arbitrary: p q)
  case Nil
  show ?case by simp
next
  case (Cons k ks)
  obtain p' q' where pq: "tv_step xs np k (p, q) = (p', q')"
    by (cases "tv_step xs np k (p, q)")
  have p': "p' = fst (tv_step xs np k (p, q))" and q': "q' = snd (tv_step xs np k (p, q))"
    by (simp_all add: pq)
  have "fold (tv_step xs np) (k # ks) (p, q) = fold (tv_step xs np) ks (p', q')"
    by (simp add: pq)
  then show ?case using Cons.IH [of p' q'] by (simp add: p' q')
qed

lemma image_tv_unfold:
  "image_tv x axis n =
     (let xs0 = (if axis \<noteq> 0 then x else transpose01 x);
          xs = padded xs0 n;
          r = fold (tv_step xs (int n)) [1..<n]
                (abs_diff (slice1 (Some (int n + 1)) (Some (- int n - 1)) xs)
                          (slice1 (Some (int n + 2)) (Some (- int n)) xs),
                 abs_diff (slice1 (Some (int n + 1)) (Some (- int n - 1)) xs)
                          (slice1 (Some (int n)) (Some (- int n - 2)) xs))
      in if axis = 0 then (transpose01 (fst r), transpose01 (snd r)) else r)"
  by (simp add: image_tv_def padded_def Let_def split_beta)

lemma image_tv_fields:
  "image_tv x axis n =
     (if axis = 0 then (transpose01 (fst (tv_fields (transpose01 x) n)),
                        transpose01 (snd (tv_fields (transpose01 x) n)))
      else tv_fields x n)"
  by (simp add: image_tv_unfold tv_fields_def Let_def)

lemma shape_tv_fields:
  assumes "shape xs = h # l # r" "1 \<le> n" "n + 1 \<le> l"
  shows "shape (fst (tv_fields xs n)) = h # l # r" "shape (snd (tv_fields xs n)) = h # l # r"
  using assms fold_tv_step [of "padded xs n" "int n" "[1..<n]"]
  by (simp_all add: tv_fields_def Let_def shape_padded slice_bound_def)

lemma sum_list_upt_shift:
  "(\<Sum>k\<leftarrow>[1..<n]. f k) + f 0 = (\<Sum>k<n. f k)" if "1 \<le> n" for f :: "nat \<Rightarrow> real"
proof -
  have "(\<Sum>k\<leftarrow>[1..<n]. f k) = (\<Sum>k = 1..<n. f k)"
    by (simp add: interv_sum_list_conv_sum_set_nat)
  moreover have "{..<n} = insert 0 {1..<n}" using that by auto
  ultimately show ?thesis by simp
qed

lemma item_fst_tv_fields:
  assumes "shape xs = h # l # r" "1 \<le> n" "n + 1 \<le> l" "j < l"
  shows "item (fst (tv_fields xs n)) (i # j # t) =
           (\<Sum>k<n. \<bar>item xs (i # ((j + k) mod l) # t) - item xs (i # ((j + k + 1) mod l) # t)\<bar>)"
proof -
  let ?P = "padded xs n"
  have shp: "shape ?P ! 1 = l + 2 * n + 2" using assms by (simp add: shape_padded)
  have tm: "\<bar>item ?P (i # (j + slice_bound (shape ?P ! 1) (int n + 1 + int k)) # t)
               - item ?P (i # (j + slice_bound (shape ?P ! 1) (int n + 2 + int k)) # t)\<bar>
             = \<bar>item xs (i # ((j + k) mod l) # t) - item xs (i # ((j + k + 1) mod l) # t)\<bar>"
    if "k < n" for k
  proof -
    have a: "slice_bound (l + 2 * n + 2) (int n + 1 + int k) = n + 1 + k"
      using that assms by (simp add: slice_bound_def)
    have b: "slice_bound (l + 2 * n + 2) (int n + 2 + int k) = n + 2 + k"
      using that assms by (simp add: slice_bound_def)
    have m1: "(j + (n + 1 + k) + l - (n + 1)) mod l = (j + k) mod l"
    proof -
      have "j + (n + 1 + k) + l - (n + 1) = (j + k) + l" by simp
      then show ?thesis by (simp only: mod_add_self2)
    qed
    have m2: "(j + (n + 2 + k) + l - (n + 1)) mod l = (j + k + 1) mod l"
    proof -
      have "j + (n + 2 + k) + l - (n + 1) = (j + k + 1) + l" by simp
      then show ?thesis by (simp only: mod_add_self2)
    qed
    have c: "item ?P (i # (j + (n + 1 + k)) # t) = item xs (i # ((j + k) mod l) # t)"
    proof -
      have "j + (n + 1 + k) < l + 2 * n + 2" using that assms by simp
      from item_padded [OF assms(1) assms(3) this, of i t] show ?thesis by (simp only: m1)
    qed
    have d: "item ?P (i # (j + (n + 2 + k)) # t) = item xs (i # ((j + k + 1) mod l) # t)"
    proof -
      have "j + (n + 2 + k) < l + 2 * n + 2" using that assms by simp
      from item_padded [OF assms(1) assms(3) this, of i t] show ?thesis by (simp only: m2)
    qed
    show ?thesis by (simp only: shp a b c d)
  qed
  let ?f = "\<lambda>k. \<bar>item xs (i # ((j + k) mod l) # t) - item xs (i # ((j + k + 1) mod l) # t)\<bar>"
  have "item (fst (tv_fields xs n)) (i # j # t) =
          \<bar>item ?P (i # (j + slice_bound (shape ?P ! 1) (int n + 1)) # t)
            - item ?P (i # (j + slice_bound (shape ?P ! 1) (int n + 2)) # t)\<bar>
          + (\<Sum>k\<leftarrow>[1..<n]. \<bar>item ?P (i # (j + slice_bound (shape ?P ! 1) (int n + 1 + int k)) # t)
               - item ?P (i # (j + slice_bound (shape ?P ! 1) (int n + 2 + int k)) # t)\<bar>)"
    using fold_tv_step [of ?P "int n" "[1..<n]"] by (simp add: tv_fields_def Let_def)
  also have "\<dots> = ?f 0 + (\<Sum>k\<leftarrow>[1..<n]. ?f k)"
  proof -
    have "(\<Sum>k\<leftarrow>[1..<n]. \<bar>item ?P (i # (j + slice_bound (shape ?P ! 1) (int n + 1 + int k)) # t)
               - item ?P (i # (j + slice_bound (shape ?P ! 1) (int n + 2 + int k)) # t)\<bar>)
          = (\<Sum>k\<leftarrow>[1..<n]. ?f k)"
      by (rule arg_cong [where f = sum_list], rule map_cong) (use tm in auto)
    moreover have "\<bar>item ?P (i # (j + slice_bound (shape ?P ! 1) (int n + 1)) # t)
            - item ?P (i # (j + slice_bound (shape ?P ! 1) (int n + 2)) # t)\<bar> = ?f 0"
      using tm [of 0] assms by simp
    ultimately show ?thesis by simp
  qed
  also have "\<dots> = (\<Sum>k<n. ?f k)"
    using sum_list_upt_shift [OF assms(2), of ?f] by simp
  finally show ?thesis .
qed

lemma item_snd_tv_fields:
  assumes "shape xs = h # l # r" "1 \<le> n" "n + 1 \<le> l" "j < l"
  shows "item (snd (tv_fields xs n)) (i # j # t) =
           (\<Sum>k<n. \<bar>item xs (i # ((j + l - k) mod l) # t) - item xs (i # ((j + l - k - 1) mod l) # t)\<bar>)"
proof -
  let ?P = "padded xs n"
  have shp: "shape ?P ! 1 = l + 2 * n + 2" using assms by (simp add: shape_padded)
  have tm: "\<bar>item ?P (i # (j + slice_bound (shape ?P ! 1) (int n + 1 - int k)) # t)
               - item ?P (i # (j + slice_bound (shape ?P ! 1) (int n - int k)) # t)\<bar>
             = \<bar>item xs (i # ((j + l - k) mod l) # t) - item xs (i # ((j + l - k - 1) mod l) # t)\<bar>"
    if "k < n" for k
  proof -
    have a: "slice_bound (l + 2 * n + 2) (int n + 1 - int k) = n + 1 - k"
      using that assms by (simp add: slice_bound_def nat_diff_distrib')
    have b: "slice_bound (l + 2 * n + 2) (int n - int k) = n - k"
      using that assms by (simp add: slice_bound_def nat_diff_distrib')
    have m1: "j + (n + 1 - k) + l - (n + 1) = j + l - k" using that by simp
    have m2: "j + (n - k) + l - (n + 1) = j + l - k - 1" using that assms by simp
    have c: "item ?P (i # (j + (n + 1 - k)) # t) = item xs (i # ((j + l - k) mod l) # t)"
    proof -
      have "j + (n + 1 - k) < l + 2 * n + 2" using that assms by simp
      from item_padded [OF assms(1) assms(3) this, of i t] show ?thesis by (simp only: m1)
    qed
    have d: "item ?P (i # (j + (n - k)) # t) = item xs (i # ((j + l - k - 1) mod l) # t)"
    proof -
      have "j + (n - k) < l + 2 * n + 2" using that assms by simp
      from item_padded [OF assms(1) assms(3) this, of i t] show ?thesis by (simp only: m2)
    qed
    show ?thesis by (simp only: shp a b c d)
  qed
  let ?f = "\<lambda>k. \<bar>item xs (i # ((j + l - k) mod l) # t) - item xs (i # ((j + l - k - 1) mod l) # t)\<bar>"
  have "item (snd (tv_fields xs n)) (i # j # t) =
          \<bar>item ?P (i # (j + slice_bound (shape ?P ! 1) (int n + 1)) # t)
            - item ?P (i # (j + slice_bound (shape ?P ! 1) (int n)) # t)\<bar>
          + (\<Sum>k\<leftarrow>[1..<n]. \<bar>item ?P (i # (j + slice_bound (shape ?P ! 1) (int n + 1 - int k)) # t)
               - item ?P (i # (j + slice_bound (shape ?P ! 1) (int n - int k)) # t)\<bar>)"
    using fold_tv_step [of ?P "int n" "[1..<n]"] by (simp add: tv_fields_def Let_def)
  also have "\<dots> = ?f 0 + (\<Sum>k\<leftarrow>[1..<n]. ?f k)"
  proof -
    have "(\<Sum>k\<leftarrow>[1..<n]. \<bar>item ?P (i # (j + slice_bound (shape ?P ! 1) (int n + 1 - int k)) # t)
               - item ?P (i # (j + slice_bound (shape ?P ! 1) (int n - int k)) # t)\<bar>)
          = (\<Sum>k\<leftarrow>[1..<n]. ?f k)"
      by (rule arg_cong [where f = sum_list], rule map_cong) (use tm in auto)
    moreover have "\<bar>item ?P (i # (j + slice_bound (shape ?P ! 1) (int n + 1)) # t)
            - item ?P (i # (j + slice_bound (shape ?P ! 1) (int n)) # t)\<bar> = ?f 0"
      using tm [of 0] assms by simp
    ultimately show ?thesis by simp
  qed
  also have "\<dots> = (\<Sum>k<n. ?f k)"
    using sum_list_upt_shift [OF assms(2), of ?f] by simp
  finally show ?thesis .
qed

lemma nat_mod_add: "nat ((int a + int b) mod int l) = (a + b) mod l"
  by (metis nat_int of_nat_add zmod_int)

lemma nat_mod_sub: "k \<le> l \<Longrightarrow> nat ((int j - int k) mod int l) = (j + l - k) mod l"
proof -
  assume kl: "k \<le> l"
  have "(int j - int k) mod int l = ((int j - int k) + int l) mod int l"
    by (simp only: mod_add_self2)
  also have "(int j - int k) + int l = int (j + l - k)" using kl by simp
  finally show ?thesis by (metis nat_int zmod_int)
qed

lemma nat_mod_sub1: "k < l \<Longrightarrow> nat ((int j - int k - 1) mod int l) = (j + l - k - 1) mod l"
  using nat_mod_sub [of "Suc k" l j] by (simp add: algebra_simps)

lemma moved_fwd: "moved 1 l (i # j # t) (int k) = i # ((j + k) mod l) # t"
  by (simp add: moved_def nat_mod_add)

lemma moved_fwd0: "moved 0 l (i # j # t) (int k) = ((i + k) mod l) # j # t"
  by (simp add: moved_def nat_mod_add)

lemma moved_bwd: "k \<le> l \<Longrightarrow> moved 1 l (i # j # t) (- int k) = i # ((j + l - k) mod l) # t"
  using nat_mod_sub [of k l j] by (simp add: moved_def)

lemma moved_bwd0: "k \<le> l \<Longrightarrow> moved 0 l (i # j # t) (- int k) = ((i + l - k) mod l) # j # t"
  using nat_mod_sub [of k l i] by (simp add: moved_def)

lemma in_shape_Cons2:
  "in_shape idx (h # l # r) \<Longrightarrow> \<exists>i j t. idx = i # j # t \<and> i < h \<and> j < l"
  by (auto simp: in_shape_def list_all2_Cons2)

lemma tv_fields_moved:
  assumes "shape xs = h # l # r" "1 \<le> n" "n + 1 \<le> l" "j < l"
  shows "item (fst (tv_fields xs n)) (i # j # t) =
           (\<Sum>k<n. \<bar>item xs (moved 1 l (i # j # t) (int k))
                    - item xs (moved 1 l (i # j # t) (int k + 1))\<bar>)"
    and "item (snd (tv_fields xs n)) (i # j # t) =
           (\<Sum>k<n. \<bar>item xs (moved 1 l (i # j # t) (- int k))
                    - item xs (moved 1 l (i # j # t) (- int k - 1))\<bar>)"
proof -
  have f: "moved 1 l (i # j # t) (int k + 1) = i # ((j + k + 1) mod l) # t" for k
  proof -
    have "int k + 1 = int (k + 1)" by simp
    then show ?thesis using moved_fwd [of l i j t "k + 1"] by (simp only: add.assoc)
  qed
  show "item (fst (tv_fields xs n)) (i # j # t) =
           (\<Sum>k<n. \<bar>item xs (moved 1 l (i # j # t) (int k))
                    - item xs (moved 1 l (i # j # t) (int k + 1))\<bar>)"
    by (simp only: item_fst_tv_fields [OF assms] moved_fwd f)
  have "(\<Sum>k<n. \<bar>item xs (i # ((j + l - k) mod l) # t) - item xs (i # ((j + l - k - 1) mod l) # t)\<bar>)
      = (\<Sum>k<n. \<bar>item xs (moved 1 l (i # j # t) (- int k)) - item xs (moved 1 l (i # j # t) (- int k - 1))\<bar>)"
  proof (intro sum.cong refl)
    fix k assume "k \<in> {..<n}"
    then have kl: "k \<le> l" "k + 1 \<le> l" using assms by simp_all
    have "- int k - 1 = - int (k + 1)" by simp
    then have "moved 1 l (i # j # t) (- int k - 1) = i # ((j + l - k - 1) mod l) # t"
      using moved_bwd [OF kl(2), of i j t] by (simp only: diff_diff_left)
    then show "\<bar>item xs (i # ((j + l - k) mod l) # t) - item xs (i # ((j + l - k - 1) mod l) # t)\<bar>
        = \<bar>item xs (moved 1 l (i # j # t) (- int k)) - item xs (moved 1 l (i # j # t) (- int k - 1))\<bar>"
      using moved_bwd [OF kl(1), of i j t] by (simp only:)
  qed
  then show "item (snd (tv_fields xs n)) (i # j # t) =
           (\<Sum>k<n. \<bar>item xs (moved 1 l (i # j # t) (- int k))
                    - item xs (moved 1 l (i # j # t) (- int k - 1))\<bar>)"
    by (simp only: item_snd_tv_fields [OF assms])
qed

lemma moved_transpose:
  "item (transpose01 x) (moved 1 l (j # i # t) d) = item x (moved 0 l (i # j # t) d)"
  by (simp add: moved_def)

text \<open>
  Claim C4. On an image of rank at least two, for an axis \<open>a\<close> that is 0 or 1 and a
  neighbour count \<open>n\<close> with \<open>1 \<le> n\<close> and \<open>n + 1\<close> at most the length \<open>L\<close> of the axis,
  \<open>_image_tv\<close> returns two fields of the shape of the image; at every position the first is
  the sum over \<open>k < n\<close> of \<open>|x[(i + k) mod L] - x[(i + k + 1) mod L]|\<close> and the second the sum
  of \<open>|x[(i - k) mod L] - x[(i - k - 1) mod L]|\<close>, the index \<open>i\<close> running along the axis: the
  axis is periodic and no position has a formula of its own.
\<close>

theorem image_tv_periodic:
  assumes axis: "axis \<le> 1"
    and rank: "2 \<le> length (shape x)"
    and n: "1 \<le> n" "n + 1 \<le> shape x ! axis"
    and idx: "in_shape idx (shape x)"
  shows "shape (fst (image_tv x axis n)) = shape x \<and>
         shape (snd (image_tv x axis n)) = shape x \<and>
         item (fst (image_tv x axis n)) idx =
           (\<Sum>k<n. \<bar>item x (moved axis (shape x ! axis) idx (int k))
                    - item x (moved axis (shape x ! axis) idx (int k + 1))\<bar>) \<and>
         item (snd (image_tv x axis n)) idx =
           (\<Sum>k<n. \<bar>item x (moved axis (shape x ! axis) idx (- int k))
                    - item x (moved axis (shape x ! axis) idx (- int k - 1))\<bar>)"
proof -
  obtain h l r where shp: "shape x = h # l # r"
    using rank by (cases "shape x"; cases "tl (shape x)") auto
  obtain i j t where ix: "idx = i # j # t" "i < h" "j < l"
    using in_shape_Cons2 idx shp by metis
  show ?thesis
  proof (cases "axis = 0")
    case False
    then have a1: "axis = 1" using axis by simp
    have nl: "n + 1 \<le> l" using n shp a1 by simp
    have L: "shape x ! 1 = l" using shp by simp
    have tv: "image_tv x 1 n = tv_fields x n" by (simp add: image_tv_fields)
    show ?thesis
      unfolding a1 tv L ix(1)
      using shape_tv_fields [OF shp n(1) nl, folded shp]
        tv_fields_moved [OF shp n(1) nl ix(3), of i t]
      by (simp only: simp_thms)
  next
    case True
    let ?xT = "transpose01 x"
    have shT: "shape ?xT = l # h # r" using shp by simp
    have nh: "n + 1 \<le> h" using n shp True by simp
    have L: "shape x ! 0 = h" using shp by simp
    have tv: "image_tv x 0 n = (transpose01 (fst (tv_fields ?xT n)), transpose01 (snd (tv_fields ?xT n)))"
      by (simp add: image_tv_fields)
    have s1: "shape (transpose01 (fst (tv_fields ?xT n))) = shape x"
      and s2: "shape (transpose01 (snd (tv_fields ?xT n))) = shape x"
      using shape_tv_fields [OF shT n(1) nh] shp by simp_all
    show ?thesis
      unfolding True tv L ix(1) fst_conv snd_conv item_transpose01
      using tv_fields_moved [OF shT n(1) nh ix(2), of j t] s1 s2
      by (simp only: moved_transpose simp_thms)
  qed
qed

theorem image_tv_periodic_witness:
  "shape (fst (image_tv \<lparr>shape = [2, 4], item = (\<lambda>idx. real (idx ! 1 * idx ! 1))\<rparr> 1 2)) = [2, 4] \<and>
   item (fst (image_tv \<lparr>shape = [2, 4], item = (\<lambda>idx. real (idx ! 1 * idx ! 1))\<rparr> 1 2)) [0, 3] = 10 \<and>
   item (snd (image_tv \<lparr>shape = [2, 4], item = (\<lambda>idx. real (idx ! 1 * idx ! 1))\<rparr> 1 2)) [0, 3] = 8"
  using image_tv_periodic [of 1 "\<lparr>shape = [2, 4], item = (\<lambda>idx. real (idx ! 1 * idx ! 1))\<rparr>" 2 "[0, 3]"]
  by (simp add: in_shape_def moved_def lessThan_Suc numeral_2_eq_2)

subsection \<open>Blending weights\<close>

lemma item_fill:
  "item (fill e0 e1 v x) (i # j # t) =
     (if selects (shape x ! 0) e0 i \<and> selects (shape x ! 1) e1 j then v else item x (i # j # t))"
  by (simp add: fill_def)

lemma shape_fill [simp]: "shape (fill e0 e1 v x) = shape x"
  by (simp add: fill_def)

lemma item_set_block:
  "item (set_block e0 e1 v x) (i # j # t) =
     (if selects (shape x ! 0) e0 i \<and> selects (shape x ! 1) e1 j
      then item v ((i - first_selected (shape x ! 0) e0) # (j - first_selected (shape x ! 1) e1) # t)
      else item x (i # j # t))"
  by (simp add: set_block_def)

lemma shape_set_block [simp]: "shape (set_block e0 e1 v x) = shape x"
  by (simp add: set_block_def)

lemma shape_zeros [simp]: "shape (zeros s) = s"
  by (simp add: zeros_def)

lemma item_map_arr [simp]: "item (map_arr f x) idx = f (item x idx)"
  by (simp add: map_arr_def)

lemma item_map2_arr [simp]: "item (map2_arr f x y) idx = f (item x idx) (item y idx)"
  by (simp add: map2_arr_def)

lemma item_slice0 [simp]:
  "item (slice0 a b x) (i # t) = item x ((i + slice_bound (shape x ! 0) a) # t)"
  by (simp add: slice0_def Let_def)

lemma item_meshgrid [simp]:
  "item (fst (meshgrid a b)) (i # j # t) = item a [j]"
  "item (snd (meshgrid a b)) (i # j # t) = item b [i]"
  by (simp_all add: meshgrid_def)

lemma shape_linspace [simp]: "shape (linspace a b n) = [n]"
  by (simp add: linspace_def)

lemma slice_bound_1 [simp]: "1 \<le> len \<Longrightarrow> slice_bound len 1 = 1"
  by (simp add: slice_bound_def)

lemma slice_bound_m1 [simp]: "slice_bound len (- 1) = len - 1"
  by (simp add: slice_bound_def nat_diff_distrib')

lemma selects_Ix0 [simp]: "selects len (Ix 0) i = (i = 0)"
  by simp

lemma selects_Ixm1 [simp]: "selects len (Ix (- 1)) i = (i = len - 1)"
  by (simp add: nat_diff_distrib')

lemma selects_inner [simp]: "1 \<le> len \<Longrightarrow> selects len (Sl 1 (- 1)) i = (1 \<le> i \<and> i < len - 1)"
  by simp

lemmas [simp del] = selects.simps

lemma weights_interior_G1:
  assumes "3 \<le> H" "3 \<le> W" "1 \<le> i" "i \<le> H - 2" "1 \<le> j" "j \<le> W - 2"
  shows "item (snd (weights [H, W])) [i, j] =
           (1 + cos (item (linspace (- pi) pi H) [i])) /
           ((1 + cos (item (linspace (- pi) pi H) [i])) + (1 + cos (item (linspace (- pi) pi W) [j])))"
proof -
  have "i < H - 1" "j < W - 1" "i \<noteq> H - 1" "j \<noteq> W - 1" "i \<noteq> 0" "j \<noteq> 0" "1 \<le> H" "1 \<le> W"
    using assms by simp_all
  then show ?thesis
    using assms(3,5)
    by (simp add: weights_def Let_def split_beta item_fill item_set_block)
qed

lemma weights_interior_G0:
  assumes "3 \<le> H" "3 \<le> W" "1 \<le> i" "i \<le> H - 2" "1 \<le> j" "j \<le> W - 2"
  shows "item (fst (weights [H, W])) [i, j] =
           (1 + cos (item (linspace (- pi) pi W) [j])) /
           ((1 + cos (item (linspace (- pi) pi H) [i])) + (1 + cos (item (linspace (- pi) pi W) [j])))"
proof -
  have "i < H - 1" "j < W - 1" "i \<noteq> H - 1" "j \<noteq> W - 1" "i \<noteq> 0" "j \<noteq> 0" "1 \<le> H" "1 \<le> W"
    using assms by simp_all
  then show ?thesis
    using assms(3,5)
    by (simp add: weights_def Let_def split_beta item_fill item_set_block)
qed

lemma linspace_3_1: "item (linspace (- pi) pi 3) [1] = 0"
  by (simp add: linspace_def)

lemma linspace_4_1: "item (linspace (- pi) pi 4) [1] = - (pi / 3)"
  by (simp add: linspace_def field_simps)

lemma cos_linspace_3_1: "cos (item (linspace (- pi) pi 3) [1]) = 1"
  by (simp only: linspace_3_1 cos_zero)

lemma cos_linspace_4_1: "cos (item (linspace (- pi) pi 4) [1]) = 1 / 2"
  by (simp only: linspace_4_1 cos_minus cos_60)

text \<open>
  Claim C2, as amended. For every shape \<open>(H, W)\<close> with \<open>H, W \<ge> 3\<close>, at every interior entry
  (row \<open>1..H-2\<close>, column \<open>1..W-2\<close>) the arrays of \<open>_weights\<close> are \<open>G1 = c0 / (c0 + c1)\<close> and
  \<open>G0 = c1 / (c0 + c1)\<close>, where \<open>c0 = 1 + cos(k0)\<close>, \<open>c1 = 1 + cos(k1)\<close>,
  \<open>k0 = linspace(-pi, pi, H)\<close> at the row and \<open>k1 = linspace(-pi, pi, W)\<close> at the column: each
  weight carries the cosine term of the other axis. The claim as stated gives \<open>G1\<close> the term
  \<open>c1\<close> and \<open>G0\<close> the term \<open>c0\<close>; on the shape \<open>(3, 4)\<close> the entry \<open>G1[1, 1]\<close> is \<open>4/7\<close>, and
  the claim's value is \<open>3/7\<close>.
\<close>

theorem weights_interior:
  assumes "3 \<le> H" "3 \<le> W" "1 \<le> i" "i \<le> H - 2" "1 \<le> j" "j \<le> W - 2"
  shows "item (snd (weights [H, W])) [i, j] =
           (1 + cos (item (linspace (- pi) pi H) [i])) /
           ((1 + cos (item (linspace (- pi) pi H) [i])) + (1 + cos (item (linspace (- pi) pi W) [j]))) \<and>
         item (fst (weights [H, W])) [i, j] =
           (1 + cos (item (linspace (- pi) pi W) [j])) /
           ((1 + cos (item (linspace (- pi) pi H) [i])) + (1 + cos (item (linspace (- pi) pi W) [j])))"
  using weights_interior_G1 [OF assms] weights_interior_G0 [OF assms] by (rule conjI)

theorem weights_interior_witness:
  "item (snd (weights [3, 4])) [1, 1] = 4 / 7 \<and> item (fst (weights [3, 4])) [1, 1] = 3 / 7"
  using weights_interior [of 3 4 1 1]
  unfolding cos_linspace_3_1 cos_linspace_4_1 by simp

theorem weights_interior_counterexample:
  "item (snd (weights [3, 4])) [1, 1] \<noteq>
     (1 + cos (item (linspace (- pi) pi 4) [1])) /
     ((1 + cos (item (linspace (- pi) pi 3) [1])) + (1 + cos (item (linspace (- pi) pi 4) [1])))"
proof -
  have "item (snd (weights [3, 4])) [1, 1] = 4 / 7"
    using weights_interior_G1 [of 3 4 1 1]
    unfolding cos_linspace_3_1 cos_linspace_4_1 by simp
  then show ?thesis
    unfolding cos_linspace_3_1 cos_linspace_4_1 by simp
qed

subsection \<open>The shift search\<close>

lemma item_put_mask [simp]:
  "item (put_mask x m v) idx = (if item m idx then item v idx else item x idx)"
  by (simp add: put_mask_def)

lemma item_fill_mask [simp]:
  "item (fill_mask x m s) idx = (if item m idx then s else item x idx)"
  by (simp add: fill_mask_def)

lemma item_zeros [simp]: "item (zeros s) idx = 0"
  by (simp add: zeros_def)

text \<open>The scores of the two candidates of one shift \<open>s\<close>.\<close>

lemma tvp_search_step:
  "item (tvp (search_step T n c k s st)) idx =
     (let tvs_p = tv_score (shifted T c (map_arr exp (map_arr (\<lambda>v. v * complex_of_real s) k))) n
      in if item (tvp st) idx > item tvs_p idx then item tvs_p idx else item (tvp st) idx)"
  by (simp add: search_step_def Let_def)

lemma tvn_search_step:
  "item (tvn (search_step T n c k s st)) idx =
     (let tvs_n = tv_score (shifted T c (map_arr cnj (map_arr exp (map_arr (\<lambda>v. v * complex_of_real s) k)))) n
      in if item (tvn st) idx > item tvs_n idx then item tvs_n idx else item (tvn st) idx)"
  by (simp add: search_step_def Let_def)

lemma search_step_le:
  "item (tvp (search_step T n c k s st)) idx \<le> item (tvp st) idx"
  "item (tvn (search_step T n c k s st)) idx \<le> item (tvn st) idx"
  by (simp_all add: tvp_search_step tvn_search_step Let_def)

lemma fold_search_step_le:
  "item (tvp (fold (search_step T n c k) cs st)) idx \<le> item (tvp st) idx \<and>
   item (tvn (fold (search_step T n c k) cs st)) idx \<le> item (tvn st) idx"
proof (induction cs arbitrary: st)
  case Nil
  show ?case by simp
next
  case (Cons s cs)
  have "item (tvp (fold (search_step T n c k) cs (search_step T n c k s st))) idx
          \<le> item (tvp (search_step T n c k s st)) idx"
    and "item (tvn (fold (search_step T n c k) cs (search_step T n c k s st))) idx
          \<le> item (tvn (search_step T n c k s st)) idx"
    using Cons.IH [of "search_step T n c k s st"] by simp_all
  then show ?case
    using search_step_le [of T n c k s st idx] by simp
qed

lemma search_snoc:
  "search T xs n (cs @ [s]) =
     search_step T n (on_axes01 (fftshift T) (on_axes01 (fft2 T) (map_arr complex_of_real xs)))
       (phase_ramp (shape xs ! 1)) s (search T xs n cs)"
  by (simp add: search_def Let_def)

lemma search_Nil: "search T xs n [] = search_init xs n"
  by (simp add: search_def Let_def)

lemma tv_search_init [simp]:
  "tvp (search_init xs n) = tv_score xs n" "tvn (search_init xs n) = tv_score xs n"
  by (simp_all add: search_init_def Let_def)

text \<open>
  Claim C5. In the fold of \<open>_gibbs_removal_1d\<close> over the shift candidates, the best positive
  score \<open>tvp\<close> and the best negative score \<open>tvn\<close> of every voxel never increase: a candidate
  replaces a score only where its own score is strictly lower. After the 45 candidates both
  are at most the baseline score of the unshifted image.
\<close>

theorem search_tv_monotone:
  "item (tvp (search T xs n (cs @ [s]))) idx \<le> item (tvp (search T xs n cs)) idx \<and>
   item (tvn (search T xs n (cs @ [s]))) idx \<le> item (tvn (search T xs n cs)) idx \<and>
   item (tvp (search T xs n (cs @ [s]))) idx =
     (let tvs_p = tv_score (shifted T
                    (on_axes01 (fftshift T) (on_axes01 (fft2 T) (map_arr complex_of_real xs)))
                    (map_arr exp (map_arr (\<lambda>v. v * complex_of_real s) (phase_ramp (shape xs ! 1))))) n
      in if item tvs_p idx < item (tvp (search T xs n cs)) idx then item tvs_p idx
         else item (tvp (search T xs n cs)) idx) \<and>
   item (tvn (search T xs n (cs @ [s]))) idx =
     (let tvs_n = tv_score (shifted T
                    (on_axes01 (fftshift T) (on_axes01 (fft2 T) (map_arr complex_of_real xs)))
                    (map_arr cnj (map_arr exp (map_arr (\<lambda>v. v * complex_of_real s)
                       (phase_ramp (shape xs ! 1)))))) n
      in if item tvs_n idx < item (tvn (search T xs n cs)) idx then item tvs_n idx
         else item (tvn (search T xs n cs)) idx) \<and>
   item (tvp (search T xs n ssamp)) idx \<le> item (tv_score xs n) idx \<and>
   item (tvn (search T xs n ssamp)) idx \<le> item (tv_score xs n) idx"
proof -
  have fin: "item (tvp (search T xs n ssamp)) idx \<le> item (tv_score xs n) idx"
       "item (tvn (search T xs n ssamp)) idx \<le> item (tv_score xs n) idx"
    using fold_search_step_le [of T n _ _ ssamp "search_init xs n" idx]
    by (simp_all add: search_def Let_def)
  show ?thesis
    unfolding search_snoc
    using fin search_step_le [of T n _ _ s "search T xs n cs" idx]
    by (simp add: tvp_search_step tvn_search_step Let_def)
qed

lemma ssamp_pos: "s \<in> set ssamp \<Longrightarrow> 0 < s"
  by (auto simp: ssamp_def linspace_def intro!: add_pos_nonneg)

lemma shift_step_nonneg:
  "0 \<le> s \<Longrightarrow> 0 \<le> item (sp st) idx \<Longrightarrow> 0 \<le> item (sp (search_step T n c k s st)) idx"
  "0 \<le> s \<Longrightarrow> 0 \<le> item (sn st) idx \<Longrightarrow> 0 \<le> item (sn (search_step T n c k s st)) idx"
  by (simp_all add: search_step_def Let_def)

lemma fold_search_step_nonneg:
  "(\<And>s. s \<in> set cs \<Longrightarrow> 0 \<le> s) \<Longrightarrow> 0 \<le> item (sp st) idx \<Longrightarrow> 0 \<le> item (sn st) idx \<Longrightarrow>
   0 \<le> item (sp (fold (search_step T n c k) cs st)) idx \<and>
   0 \<le> item (sn (fold (search_step T n c k) cs st)) idx"
proof (induction cs arbitrary: st)
  case Nil
  then show ?case by simp
next
  case (Cons s cs)
  have s0: "0 \<le> s" using Cons.prems(1) by simp
  show ?case
    using Cons.IH [of "search_step T n c k s st"] Cons.prems shift_step_nonneg [OF s0]
    by simp
qed

lemma search_shifts_nonneg:
  "0 \<le> item (sp (search T xs n ssamp)) idx" "0 \<le> item (sn (search T xs n ssamp)) idx"
proof -
  have "0 \<le> item (sp (search_init xs n)) idx" "0 \<le> item (sn (search_init xs n)) idx"
    by (simp_all add: search_init_def Let_def)
  moreover have "\<And>s. s \<in> set ssamp \<Longrightarrow> 0 \<le> s" using ssamp_pos by (simp add: less_imp_le)
  ultimately show "0 \<le> item (sp (search T xs n ssamp)) idx" "0 \<le> item (sn (search T xs n ssamp)) idx"
    using fold_search_step_nonneg [of ssamp "search_init xs n" idx T n]
    by (simp_all add: search_def Let_def)
qed

lemma item_interpolate:
  "item (interpolate xs st) idx =
     (if item (sp st) idx + item (sn st) idx \<noteq> 0
      then (item (isp st) idx - item (isn st) idx) / (item (sp st) idx + item (sn st) idx)
             * item (sn st) idx + item (isn st) idx
      else item xs idx)"
  by (simp add: interpolate_def Let_def map_arr_def map2_arr_def)

lemma item_transpose01_gen:
  "item (transpose01 x) idx = item x (oriented 0 idx)"
  by (simp add: transpose01_def oriented_def split: list.splits)

lemma oriented_oriented: "oriented 0 (oriented 0 idx) = idx"
  by (simp add: oriented_def split: list.splits)

lemma item_gibbs_removal_1d:
  "item (gibbs_removal_1d T x axis n) idx =
     item (interpolate (if axis \<noteq> 0 then x else transpose01 x)
             (search T (if axis \<noteq> 0 then x else transpose01 x) n ssamp)) (oriented axis idx)"
  by (simp add: gibbs_removal_1d_def Let_def item_transpose01_gen) (simp add: oriented_def)

text \<open>
  Claim C3. After the search over the 45 candidates, a voxel whose best positive shift and
  best negative shift are both exactly zero keeps its input value; every other voxel becomes
  \<open>isn + (isp - isn) * sn / (sp + sn)\<close>, with the voxel's own best estimates \<open>isp\<close>, \<open>isn\<close> and
  best shifts \<open>sp\<close>, \<open>sn\<close>. When exactly one of the two shifts is nonzero this is the estimate
  of the other direction: \<open>isn\<close> when only \<open>sp\<close> is nonzero, \<open>isp\<close> when only \<open>sn\<close> is.
\<close>

theorem gibbs_removal_1d_interpolation:
  "item (gibbs_removal_1d T x axis n) idx =
     (let xs = (if axis \<noteq> 0 then x else transpose01 x);
          st = search T xs n ssamp;
          v = oriented axis idx;
          p = item (sp st) v; q = item (sn st) v
      in if p = 0 \<and> q = 0 then item x idx
         else item (isn st) v + (item (isp st) v - item (isn st) v) * q / (p + q)) \<and>
   item (gibbs_removal_1d T x axis n) idx =
     (let xs = (if axis \<noteq> 0 then x else transpose01 x);
          st = search T xs n ssamp;
          v = oriented axis idx;
          p = item (sp st) v; q = item (sn st) v
      in if p = 0 \<and> q = 0 then item x idx
         else if q = 0 then item (isn st) v
         else if p = 0 then item (isp st) v
         else item (isn st) v + (item (isp st) v - item (isn st) v) * q / (p + q))"
proof -
  let ?xs = "if axis \<noteq> 0 then x else transpose01 x"
  let ?st = "search T ?xs n ssamp"
  let ?v = "oriented axis idx"
  have p: "0 \<le> item (sp ?st) ?v" and q: "0 \<le> item (sn ?st) ?v"
    by (rule search_shifts_nonneg)+
  have z: "item (sp ?st) ?v + item (sn ?st) ?v \<noteq> 0 \<longleftrightarrow> \<not> (item (sp ?st) ?v = 0 \<and> item (sn ?st) ?v = 0)"
    using p q by (simp add: add_nonneg_eq_0_iff)
  have xs: "item ?xs ?v = item x idx"
    by (simp add: item_transpose01_gen oriented_oriented) (simp add: oriented_def)
  show ?thesis
    unfolding item_gibbs_removal_1d item_interpolate Let_def z xs
    by (auto simp: field_simps)
qed

subsection \<open>The batch of a rank 4 volume\<close>

lemma same_planeI:
  "2 \<le> length (shape x) \<Longrightarrow> 2 \<le> length (shape y) \<Longrightarrow> shape x ! 0 = shape y ! 0 \<Longrightarrow>
   shape x ! 1 = shape y ! 1 \<Longrightarrow> (\<And>i j. item x (i # j # t) = item y (i # j # u)) \<Longrightarrow>
   same_plane x t y u"
  by (simp add: same_plane_def)

lemma same_plane_item: "same_plane x t y u \<Longrightarrow> item x (i # j # t) = item y (i # j # u)"
  by (simp add: same_plane_def)

lemma same_plane_shape:
  "same_plane x t y u \<Longrightarrow> shape x ! 0 = shape y ! 0"
  "same_plane x t y u \<Longrightarrow> shape x ! 1 = shape y ! 1"
  "same_plane x t y u \<Longrightarrow> 2 \<le> length (shape x)"
  "same_plane x t y u \<Longrightarrow> 2 \<le> length (shape y)"
  by (simp_all add: same_plane_def)

lemma shape_transpose01_nth:
  "2 \<le> length (shape x) \<Longrightarrow>
   length (shape (transpose01 x)) = length (shape x) \<and>
   shape (transpose01 x) ! 0 = shape x ! 1 \<and> shape (transpose01 x) ! 1 = shape x ! 0"
  by (cases "shape x"; cases "tl (shape x)") (auto simp: transpose01_def)

lemma sp_transpose01:
  "same_plane x t y u \<Longrightarrow> same_plane (transpose01 x) t (transpose01 y) u"
  using shape_transpose01_nth [of x] shape_transpose01_nth [of y]
  by (auto simp: same_plane_def)

lemma shape_slice1_nth:
  "2 \<le> length (shape x) \<Longrightarrow>
   length (shape (slice1 s e x)) = length (shape x) \<and>
   shape (slice1 s e x) ! 0 = shape x ! 0"
  by (simp add: slice1_def Let_def)

lemma shape_slice1_1:
  "2 \<le> length (shape x) \<Longrightarrow>
   shape (slice1 s e x) ! 1 =
     (case e of None \<Rightarrow> shape x ! 1 | Some v \<Rightarrow> slice_bound (shape x ! 1) v)
     - (case s of None \<Rightarrow> 0 | Some v \<Rightarrow> slice_bound (shape x ! 1) v)"
  by (cases s; cases e) (simp_all add: slice1_def Let_def)

lemma item_slice1_gen:
  "item (slice1 s e x) (i # j # t) =
     item x (i # (j + (case s of None \<Rightarrow> 0 | Some v \<Rightarrow> slice_bound (shape x ! 1) v)) # t)"
  by (cases s) (simp_all add: slice1_def Let_def)

lemma sp_slice1:
  "same_plane x t y u \<Longrightarrow> same_plane (slice1 s e x) t (slice1 s e y) u"
  using shape_slice1_nth [of x s e] shape_slice1_nth [of y s e]
    shape_slice1_1 [of x s e] shape_slice1_1 [of y s e]
  by (cases s; cases e) (auto simp: same_plane_def item_slice1_gen simp del: item_slice1)

lemma shape_concatenate1_nth:
  "2 \<le> length (shape b) \<Longrightarrow>
   length (shape (concatenate1 a b c)) = length (shape b) \<and>
   shape (concatenate1 a b c) ! 0 = shape b ! 0 \<and>
   shape (concatenate1 a b c) ! 1 = shape a ! 1 + shape b ! 1 + shape c ! 1"
  by (simp add: concatenate1_def Let_def)

lemma sp_concatenate1:
  "same_plane a t a' u \<Longrightarrow> same_plane b t b' u \<Longrightarrow> same_plane c t c' u \<Longrightarrow>
   same_plane (concatenate1 a b c) t (concatenate1 a' b' c') u"
  using shape_concatenate1_nth [of b a c] shape_concatenate1_nth [of b' a' c']
  by (auto simp: same_plane_def item_concatenate1)

lemma sp_map_arr:
  "same_plane x t y u \<Longrightarrow> same_plane (map_arr f x) t (map_arr f y) u"
  by (auto simp: same_plane_def map_arr_def)

lemma sp_map2_arr:
  "same_plane a t a' u \<Longrightarrow> same_plane b t b' u \<Longrightarrow>
   same_plane (map2_arr f a b) t (map2_arr f a' b') u"
  by (auto simp: same_plane_def map2_arr_def)

lemma sp_abs_diff:
  "same_plane a t a' u \<Longrightarrow> same_plane b t b' u \<Longrightarrow>
   same_plane (abs_diff a b) t (abs_diff a' b') u"
  by (auto simp: same_plane_def abs_diff_def)

lemma sp_add:
  "same_plane a t a' u \<Longrightarrow> same_plane b t b' u \<Longrightarrow> same_plane (add a b) t (add a' b') u"
  by (auto simp: same_plane_def add_def)

lemma sp_tv_step:
  assumes "same_plane xs t ys u" "same_plane p t p' u" "same_plane q t q' u"
  shows "same_plane (fst (tv_step xs np k (p, q))) t (fst (tv_step ys np k (p', q'))) u \<and>
         same_plane (snd (tv_step xs np k (p, q))) t (snd (tv_step ys np k (p', q'))) u"
  using assms by (simp add: tv_step_def sp_add sp_abs_diff sp_slice1)

lemma sp_fold_tv_step:
  assumes "same_plane xs t ys u"
  shows "same_plane p t p' u \<Longrightarrow> same_plane q t q' u \<Longrightarrow>
         same_plane (fst (fold (tv_step xs np) ks (p, q))) t (fst (fold (tv_step ys np) ks (p', q'))) u \<and>
         same_plane (snd (fold (tv_step xs np) ks (p, q))) t (snd (fold (tv_step ys np) ks (p', q'))) u"
proof (induction ks arbitrary: p q p' q')
  case Nil
  then show ?case by simp
next
  case (Cons k ks)
  obtain p1 q1 where a: "tv_step xs np k (p, q) = (p1, q1)" by (cases "tv_step xs np k (p, q)")
  obtain p2 q2 where b: "tv_step ys np k (p', q') = (p2, q2)" by (cases "tv_step ys np k (p', q')")
  have "same_plane p1 t p2 u" "same_plane q1 t q2 u"
    using sp_tv_step [OF assms Cons.prems, of np k] by (simp_all add: a b)
  from Cons.IH [OF this] show ?case by (simp add: a b)
qed

lemma sp_tv_fields:
  assumes "same_plane xs t ys u"
  shows "same_plane (fst (tv_fields xs n)) t (fst (tv_fields ys n)) u \<and>
         same_plane (snd (tv_fields xs n)) t (snd (tv_fields ys n)) u"
proof -
  have p: "same_plane (padded xs n) t (padded ys n) u"
    unfolding padded_def by (intro sp_concatenate1 sp_slice1 assms)
  show ?thesis
    unfolding tv_fields_def Let_def
    by (intro sp_fold_tv_step sp_abs_diff sp_slice1 p)
qed

lemma sp_image_tv:
  assumes "same_plane x t y u"
  shows "same_plane (fst (image_tv x 1 n)) t (fst (image_tv y 1 n)) u \<and>
         same_plane (snd (image_tv x 1 n)) t (snd (image_tv y 1 n)) u"
  using sp_tv_fields [OF assms] by (simp add: image_tv_fields)

lemma sp_tv_score:
  assumes "same_plane x t y u"
  shows "same_plane (tv_score x n) t (tv_score y n) u"
  using sp_image_tv [OF assms, of n]
  by (simp add: tv_score_def split_beta sp_map2_arr)

lemma sp_on_axes01:
  assumes "same_plane x t y u"
  shows "same_plane (on_axes01 F x) t (on_axes01 F y) u"
proof -
  have "(\<lambda>a b. item x (a # b # t)) = (\<lambda>a b. item y (a # b # u))"
    using assms by (simp add: same_plane_def)
  then show ?thesis
    using assms by (simp add: same_plane_def on_axes01_def)
qed

lemma sp_mul_axis1:
  "same_plane c t c' u \<Longrightarrow> same_plane (mul_axis1 c e) t (mul_axis1 c' e) u"
  by (simp add: same_plane_def mul_axis1_def)

lemma sp_shifted:
  "same_plane c t c' u \<Longrightarrow> same_plane (shifted T c e) t (shifted T c' e) u"
  unfolding shifted_def by (intro sp_map_arr sp_on_axes01 sp_mul_axis1)

lemma sp_put_mask:
  "same_plane x t x' u \<Longrightarrow> same_plane m t m' u \<Longrightarrow> same_plane v t v' u \<Longrightarrow>
   same_plane (put_mask x m v) t (put_mask x' m' v') u"
  by (simp add: same_plane_def put_mask_def)

lemma sp_fill_mask:
  "same_plane x t x' u \<Longrightarrow> same_plane m t m' u \<Longrightarrow>
   same_plane (fill_mask x m s) t (fill_mask x' m' s) u"
  by (simp add: same_plane_def fill_mask_def)

lemma sp_zeros:
  "2 \<le> length s \<Longrightarrow> 2 \<le> length s' \<Longrightarrow> s ! 0 = s' ! 0 \<Longrightarrow> s ! 1 = s' ! 1 \<Longrightarrow>
   same_plane (zeros s) t (zeros s') u"
  by (simp add: same_plane_def zeros_def)

lemma sp_search_step:
  assumes "same_plane c t c' u" "same_state st t st' u"
  shows "same_state (search_step T n c k s st) t (search_step T n c' k s st') u"
  using assms
  unfolding same_state_def search_step_def Let_def
  by (simp add: sp_put_mask sp_fill_mask sp_map2_arr sp_tv_score sp_shifted)

lemma sp_fold_search_step:
  assumes "same_plane c t c' u"
  shows "same_state st t st' u \<Longrightarrow>
         same_state (fold (search_step T n c k) cs st) t (fold (search_step T n c' k) cs st') u"
  by (induction cs arbitrary: st st') (simp_all add: sp_search_step [OF assms])

lemma sp_search_init:
  assumes "same_plane x t y u"
  shows "same_state (search_init x n) t (search_init y n) u"
  using assms same_plane_shape [OF assms]
  unfolding same_state_def search_init_def Let_def
  by (simp add: sp_tv_score sp_zeros)

lemma sp_search:
  assumes "same_plane x t y u"
  shows "same_state (search T x n cs) t (search T y n cs) u"
proof -
  have k: "phase_ramp (shape x ! 1) = phase_ramp (shape y ! 1)"
    using same_plane_shape(2) [OF assms] by simp
  show ?thesis
    unfolding search_def Let_def k
    by (intro sp_fold_search_step sp_search_init sp_on_axes01 sp_map_arr assms)
qed

lemma sp_interpolate:
  assumes "same_plane x t y u" "same_state st t st' u"
  shows "same_plane (interpolate x st) t (interpolate y st') u"
  using assms
  unfolding interpolate_def Let_def same_state_def
  by (intro sp_put_mask sp_map_arr sp_map2_arr) simp_all

lemma sp_gibbs_removal_1d:
  assumes "same_plane x t y u"
  shows "same_plane (gibbs_removal_1d T x axis n) t (gibbs_removal_1d T y axis n) u"
proof (cases "axis = 0")
  case True
  have xt: "same_plane (transpose01 x) t (transpose01 y) u" by (rule sp_transpose01 [OF assms])
  show ?thesis
    unfolding gibbs_removal_1d_def Let_def
    using True by (simp add: sp_transpose01 sp_interpolate [OF xt sp_search [OF xt]])
next
  case False
  then show ?thesis
    unfolding gibbs_removal_1d_def Let_def
    by (simp add: sp_interpolate [OF assms sp_search [OF assms]])
qed

lemma shape_weights [simp]:
  "shape (fst (weights shp)) = shp" "shape (snd (weights shp)) = shp"
  by (simp_all add: weights_def Let_def split_beta)

lemma shape_newaxis [simp]: "shape (newaxis g) = shape g @ [1]"
  by (simp add: newaxis_def)

lemma bc_index_newaxis: "bc_index [a, b, 1] [i, j, m] = bc_index [a, b, 1] [i, j, m']"
  by (simp add: bc_index_def)

lemma sp_mul_weights:
  assumes "same_plane c [m] c' [m']" "shape g = [a, b, 1]"
  shows "same_plane (mul_weights c g) [m] (mul_weights c' g) [m']"
  using assms bc_index_newaxis [of a b _ _ m m']
  by (simp add: same_plane_def mul_weights_def)

lemma sp_gibbs_removal_2d:
  assumes "same_plane x [m] y [m']" "shape g0 = [a, b, 1]" "shape g1 = [a', b', 1]"
  shows "same_plane (gibbs_removal_2d T x n (Some g0) (Some g1)) [m]
           (gibbs_removal_2d T y n (Some g0) (Some g1)) [m']"
  unfolding gibbs_removal_2d_def Let_def prod.case option.case
  by (intro sp_map_arr sp_on_axes01 sp_map2_arr sp_mul_weights [OF _ assms(2)]
      sp_mul_weights [OF _ assms(3)] sp_gibbs_removal_1d assms(1))

lemma shape_put_mask [simp]: "shape (put_mask x m v) = shape x"
  by (simp add: put_mask_def)

lemma shape_map_arr [simp]: "shape (map_arr f x) = shape x"
  by (simp add: map_arr_def)

lemma shape_map2_arr [simp]: "shape (map2_arr f x y) = shape x"
  by (simp add: map2_arr_def)

lemma shape_on_axes01 [simp]: "shape (on_axes01 F x) = shape x"
  by (simp add: on_axes01_def)

lemma shape_mul_weights [simp]: "shape (mul_weights c g) = shape c"
  by (simp add: mul_weights_def)

lemma shape_interpolate [simp]: "shape (interpolate xs st) = shape xs"
  by (simp add: interpolate_def Let_def)

lemma shape_transpose01_twice: "shape (transpose01 (transpose01 x)) = shape x"
  by (simp add: transpose01_def split: list.splits)

lemma shape_transpose01_cong: "shape a = shape b \<Longrightarrow> shape (transpose01 a) = shape (transpose01 b)"
  by (simp add: transpose01_def)

lemma shape_gibbs_removal_1d [simp]: "shape (gibbs_removal_1d T x axis n) = shape x"
proof (cases "axis = 0")
  case True
  have "shape (transpose01 (interpolate (transpose01 x) st)) = shape x" for st
    using shape_transpose01_cong [of "interpolate (transpose01 x) st" "transpose01 x"]
    by (simp add: shape_transpose01_twice)
  then show ?thesis using True by (simp add: gibbs_removal_1d_def Let_def)
next
  case False
  then show ?thesis by (simp add: gibbs_removal_1d_def Let_def)
qed

lemma shape_gibbs_removal_2d [simp]: "shape (gibbs_removal_2d T x n G0 G1) = shape x"
  by (simp add: gibbs_removal_2d_def Let_def split_beta)

lemma div_mod_batch: "g < G \<Longrightarrow> (k * G + g) div G = k \<and> (k * G + g) mod G = g" for g :: nat
  by simp

text \<open>
  The batch that the rank 4 call hands to \<open>_gibbs_removal_2d\<close> holds, at position
  \<open>k * G + g\<close>, the image that the call on the sub-volume \<open>g\<close> holds at position \<open>k\<close>.
\<close>

lemma same_plane_merge:
  assumes "shape v = [a, b, c, G]" "g < G"
  shows "same_plane (reshape_merge v) [k * G + g] (subvolume v g) [k]"
  using assms div_mod_batch [OF assms(2), of k]
  by (simp add: same_plane_def reshape_merge_def subvolume_def Let_def)

lemma subvolume_swapaxes:
  assumes "ax < 2" "shape vol = [s0, s1, s2, s3]"
  shows "same_plane (subvolume (swapaxes ax 2 vol) g) [k] (swapaxes ax 2 (subvolume vol g)) [k]"
proof -
  from assms(1) consider "ax = 0" | "ax = 1" by linarith
  then show ?thesis
    by cases (simp_all add: same_plane_def subvolume_def swapaxes_def assms(2))
qed

lemma same_plane_trans:
  "same_plane x t y u \<Longrightarrow> same_plane y u z w \<Longrightarrow> same_plane x t z w"
  by (simp add: same_plane_def)

lemma take2_shape:
  "same_plane x t y u \<Longrightarrow> take 2 (shape x) = take 2 (shape y)"
  by (cases "shape x"; cases "tl (shape x)"; cases "shape y"; cases "tl (shape y)")
     (auto simp: same_plane_def)

lemma sp_corrected_batch:
  assumes "same_plane x [m] y [m']"
  shows "same_plane (corrected_batch T x n) [m] (corrected_batch T y n) [m']"
proof -
  have s: "take 2 (shape x) = take 2 (shape y)" by (rule take2_shape [OF assms])
  obtain a b where ab: "take 2 (shape y) = [a, b]"
    using same_plane_shape(4) [OF assms]
    by (cases "shape y"; cases "tl (shape y)") auto
  show ?thesis
    unfolding corrected_batch_def s
    by (rule sp_gibbs_removal_2d [OF assms]) (simp_all add: ab)
qed

lemma shape_corrected_batch [simp]: "shape (corrected_batch T x n) = shape x"
  by (simp add: corrected_batch_def)

lemma gibbs_removal_rank4:
  assumes "shape vol = [s0, s1, s2, s3]"
  shows "gibbs_removal T vol ax n =
           (let v = (if ax < 2 then swapaxes ax 2 vol else vol);
                r = reshape_split (shape v) (corrected_batch T (reshape_merge v) n)
            in if ax < 2 then swapaxes ax 2 r else r)"
  by (simp add: gibbs_removal_def Let_def split_beta corrected_batch_def assms)

lemma gibbs_removal_rank3:
  assumes "shape vol = [s0, s1, s2]"
  shows "gibbs_removal T vol ax n =
           (let v = (if ax < 2 then swapaxes ax 2 vol else vol);
                r = corrected_batch T v n
            in if ax < 2 then swapaxes ax 2 r else r)"
  by (simp add: gibbs_removal_def Let_def split_beta corrected_batch_def assms swapaxes_def)

lemma item_swapaxes_split:
  "item (swapaxes 0 2 (reshape_split [t0, t1, t2, s3] r)) [i, j, k, g] = item r [k, j, i * s3 + g]"
  "item (swapaxes 1 2 (reshape_split [t0, t1, t2, s3] r)) [i, j, k, g] = item r [i, k, j * s3 + g]"
  by (simp_all add: swapaxes_def reshape_split_def)

lemma item_swapaxes3:
  "item (swapaxes 0 2 r) [i, j, k] = item r [k, j, i]"
  "item (swapaxes 1 2 r) [i, j, k] = item r [i, k, j]"
  by (simp_all add: swapaxes_def)

text \<open>
  Claim C9. For a rank 4 volume with \<open>G\<close> gradient directions, a slice axis 0, 1 or 2 and any
  \<open>n_points\<close>, the volume \<open>gibbs_removal\<close> returns holds, for every direction \<open>g < G\<close>, at
  \<open>[i, j, k, g]\<close> what \<open>gibbs_removal\<close> returns at \<open>[i, j, k]\<close> for the sub-volume
  \<open>vol[..., g]\<close> with the same slice axis and \<open>n_points\<close>; the two results have the shapes of
  the volume and of the sub-volume.
\<close>

theorem gibbs_removal_batch_consistent:
  assumes rank: "length (shape vol) = 4"
    and ax: "slice_axis \<le> 2"
    and g: "g < shape vol ! 3"
    and idx: "length idx = 3"
  shows "item (gibbs_removal T vol slice_axis n_points) (idx @ [g])
           = item (gibbs_removal T (subvolume vol g) slice_axis n_points) idx \<and>
         shape (gibbs_removal T vol slice_axis n_points) = shape vol \<and>
         shape (gibbs_removal T (subvolume vol g) slice_axis n_points) = butlast (shape vol)"
proof -
  obtain s0 s1 s2 s3 where shp: "shape vol = [s0, s1, s2, s3]"
    using rank by (cases "shape vol"; cases "tl (shape vol)"; cases "tl (tl (shape vol))";
        cases "tl (tl (tl (shape vol)))") auto
  obtain i j k where ix: "idx = [i, j, k]"
    using idx by (cases idx; cases "tl idx"; cases "tl (tl idx)") auto
  have g3: "g < s3" using g shp by simp
  have sub: "shape (subvolume vol g) = [s0, s1, s2]" by (simp add: subvolume_def shp)
  show ?thesis
  proof (cases "slice_axis < 2")
    case False
    have sp: "same_plane (reshape_merge vol) [k * s3 + g] (subvolume vol g) [k]"
      by (rule same_plane_merge [OF shp g3])
    have "item (corrected_batch T (reshape_merge vol) n_points) [i, j, k * s3 + g]
            = item (corrected_batch T (subvolume vol g) n_points) [i, j, k]"
      by (rule same_plane_item [OF sp_corrected_batch [OF sp]])
    then show ?thesis
      using False
      by (simp add: gibbs_removal_rank4 [OF shp] gibbs_removal_rank3 [OF sub] Let_def ix
          reshape_split_def shp sub)
  next
    case True
    let ?v = "swapaxes slice_axis 2 vol"
    let ?s = "swapaxes slice_axis 2 (subvolume vol g)"
    from True consider "slice_axis = 0" | "slice_axis = 1" by linarith
    then obtain t0 t1 t2 where sv: "shape ?v = [t0, t1, t2, s3]"
      and ss: "shape ?s = [t0, t1, t2]"
      and ts: "[t0, t1, t2, s3][slice_axis := [t0, t1, t2, s3] ! 2, 2 := [t0, t1, t2, s3] ! slice_axis] = [s0, s1, s2, s3]"
              "[t0, t1, t2][slice_axis := [t0, t1, t2] ! 2, 2 := [t0, t1, t2] ! slice_axis] = [s0, s1, s2]"
      by cases (simp_all add: swapaxes_def shp sub)
    have sp: "same_plane (reshape_merge ?v) [m * s3 + g] ?s [m]" for m
      by (rule same_plane_trans [OF same_plane_merge [OF sv g3] subvolume_swapaxes [OF True shp]])
    have eq: "item (corrected_batch T (reshape_merge ?v) n_points) [a, b, m * s3 + g]
            = item (corrected_batch T ?s n_points) [a, b, m]" for a b m
      by (rule same_plane_item [OF sp_corrected_batch [OF sp]])
    have shapes: "shape (swapaxes slice_axis 2 (reshape_split [t0, t1, t2, s3] r)) = [s0, s1, s2, s3]"
      "shape r' = [t0, t1, t2] \<Longrightarrow> shape (swapaxes slice_axis 2 r') = [s0, s1, s2]" for r r'
      using ts by (simp_all add: swapaxes_def reshape_split_def)
    have items: "item (swapaxes slice_axis 2 (reshape_split [t0, t1, t2, s3]
                    (corrected_batch T (reshape_merge ?v) n_points))) [i, j, k, g]
               = item (swapaxes slice_axis 2 (corrected_batch T ?s n_points)) [i, j, k]"
    proof -
      from True consider "slice_axis = 0" | "slice_axis = 1" by linarith
      then show ?thesis
      proof cases
        case 1
        show ?thesis unfolding 1 item_swapaxes_split item_swapaxes3 using eq [of k j i] unfolding 1 .
      next
        case 2
        show ?thesis unfolding 2 item_swapaxes_split item_swapaxes3 using eq [of i k j] unfolding 2 .
      qed
    qed
    have A: "gibbs_removal T vol slice_axis n_points =
               swapaxes slice_axis 2 (reshape_split [t0, t1, t2, s3]
                 (corrected_batch T (reshape_merge ?v) n_points))"
      using True by (simp add: gibbs_removal_rank4 [OF shp] Let_def sv)
    have B: "gibbs_removal T (subvolume vol g) slice_axis n_points =
               swapaxes slice_axis 2 (corrected_batch T ?s n_points)"
      using True by (simp add: gibbs_removal_rank3 [OF sub] Let_def)
    have C: "shape (swapaxes slice_axis 2 (corrected_batch T ?s n_points)) = [s0, s1, s2]"
      by (rule shapes(2)) (simp add: ss)
    show ?thesis
      unfolding A B ix using items shapes(1) C by (simp add: shp)
  qed
qed

theorem gibbs_removal_batch_consistent_witness:
  "item (gibbs_removal \<lparr>fft2 = (\<lambda>h w f. f), ifft2 = (\<lambda>h w f. f), fftshift = (\<lambda>h w f. f)\<rparr>
           \<lparr>shape = [8, 8, 2, 3], item = (\<lambda>idx. real (sum_list idx))\<rparr> 0 3) [0, 0, 0, 1]
     = item (gibbs_removal \<lparr>fft2 = (\<lambda>h w f. f), ifft2 = (\<lambda>h w f. f), fftshift = (\<lambda>h w f. f)\<rparr>
           (subvolume \<lparr>shape = [8, 8, 2, 3], item = (\<lambda>idx. real (sum_list idx))\<rparr> 1) 0 3) [0, 0, 0] \<and>
   shape (gibbs_removal \<lparr>fft2 = (\<lambda>h w f. f), ifft2 = (\<lambda>h w f. f), fftshift = (\<lambda>h w f. f)\<rparr>
           \<lparr>shape = [8, 8, 2, 3], item = (\<lambda>idx. real (sum_list idx))\<rparr> 0 3) = [8, 8, 2, 3]"
  using gibbs_removal_batch_consistent
    [of "\<lparr>shape = [8, 8, 2, 3], item = (\<lambda>idx. real (sum_list idx))\<rparr>" 0 1 "[0, 0, 0]"
        "\<lparr>fft2 = (\<lambda>h w f. f), ifft2 = (\<lambda>h w f. f), fftshift = (\<lambda>h w f. f)\<rparr>" 3]
  by simp

section \<open>Properties of the descriptor reading\<close>

lemma thenE_Inr [simp]: "thenE (Inr a) f = f a"
  by (simp add: thenE_def)

lemma thenE_Inl [simp]: "thenE (Inl e) f = Inl e"
  by (simp add: thenE_def)

lemma thenE_eq_Inr: "thenE m f = Inr r \<longleftrightarrow> (\<exists>a. m = Inr a \<and> f a = Inr r)"
  by (cases m) simp_all

lemma foldE_same: "(\<And>x. x \<in> set xs \<Longrightarrow> f x a = Inr a) \<Longrightarrow> foldE f xs a = Inr a"
  by (induction xs) simp_all

lemma foldE_fails: "xs \<noteq> [] \<Longrightarrow> (\<And>x. f x a = Inl e) \<Longrightarrow> foldE f xs a = Inl e"
  by (cases xs) simp_all

lemma promote_types_same [simp]: "promote_types d d = d"
  by (cases d) (simp_all add: promote_types_def float_of_def complex_of_def)

lemma can_cast_same [simp]: "can_cast_same_kind d d"
  by (simp add: can_cast_same_kind_def)

lemma broadcast_rev_same [simp]: "broadcast_rev s s = Some s"
  by (induction s) simp_all

lemma broadcast_same [simp]: "broadcast s s = Some s"
  by (simp add: broadcast_def)

lemma binary_same [simp]: "dims a = dims b \<Longrightarrow> binary dt a b = Inr \<lparr>dims = dims b, dtype = dt\<rparr>"
  by (simp add: binary_def)

lemma inplace_same [simp]: "dims a = dims b \<Longrightarrow> dtype a = dtype b \<Longrightarrow> inplace a b = Inr a"
  by (simp add: inplace_def)

lemma abs_dtype_not_Bool: "d \<noteq> Bool \<Longrightarrow> abs_dtype d \<noteq> Bool"
  by (cases d) (simp_all add: abs_dtype_def float_of_def)

lemma abs_dtype_idem [simp]: "abs_dtype (abs_dtype d) = abs_dtype d"
  by (cases d) (simp_all add: abs_dtype_def float_of_def)


lemma dims_d_slice1_None [simp]:
  "dims x = h # l # r \<Longrightarrow> dims (d_slice1 (Some s) None x) = h # (l - slice_bound l s) # r"
  by (simp add: d_slice1_def Let_def)

lemma dtype_d_slice1 [simp]: "dtype (d_slice1 s e x) = dtype x"
  by (simp add: d_slice1_def Let_def)

lemma dims_d_concatenate1 [simp]:
  "dims a = h # la # r \<Longrightarrow> dims b = h # lb # r \<Longrightarrow> dims c = h # lc # r \<Longrightarrow>
   dims (d_concatenate1 a b c) = h # (la + lb + lc) # r"
  by (simp add: d_concatenate1_def)

lemma dtype_d_concatenate1 [simp]: "dtype (d_concatenate1 a b c) = dtype b"
  by (simp add: d_concatenate1_def)

lemma d_slice1_window:
  "dims xs = h # m # r \<Longrightarrow> slice_bound m s = a \<Longrightarrow> slice_bound m e = a + l \<Longrightarrow>
   dims (d_slice1 (Some s) (Some e) xs) = h # l # r"
  by (simp add: d_slice1_def Let_def)

lemma d_abs_diff_same:
  "dims a = s \<Longrightarrow> dims b = s \<Longrightarrow> dtype a = d \<Longrightarrow> dtype b = d \<Longrightarrow> d \<noteq> Bool \<Longrightarrow>
   d_abs_diff a b = Inr \<lparr>dims = s, dtype = abs_dtype d\<rparr>"
  by (simp add: d_abs_diff_def)

lemma inplace_field:
  "dims p = s \<Longrightarrow> dtype p = d \<Longrightarrow> inplace p \<lparr>dims = s, dtype = d\<rparr> = Inr p"
  by (simp add: inplace_def)

text \<open>The field descriptors of \<open>_image_tv\<close> on an axis long enough for the window.\<close>

lemma d_tv_step_ok:
  assumes xs: "dims xs = h # (l + 2 * n + 2) # r" "dtype xs \<noteq> Bool"
    and k: "1 \<le> k" "k < n"
    and acc: "dims p = h # l # r" "dtype p = abs_dtype (dtype xs)"
             "dims q = h # l # r" "dtype q = abs_dtype (dtype xs)"
  shows "d_tv_step xs (int n) k (p, q) = Inr (p, q)"
proof -
  let ?m = "l + 2 * n + 2"
  have w1: "dims (d_slice1 (Some (int n + 1 + int k)) (Some (- int n - 1 + int k)) xs) = h # l # r"
    by (rule d_slice1_window [OF xs(1), where a = "n + 1 + k"])
       (use k in \<open>simp_all add: slice_bound_def nat_diff_distrib' nat_add_distrib\<close>)
  have w2: "dims (d_slice1 (Some (int n + 2 + int k)) (Some (- int n + int k)) xs) = h # l # r"
    by (rule d_slice1_window [OF xs(1), where a = "n + 2 + k"])
       (use k in \<open>simp_all add: slice_bound_def nat_diff_distrib' nat_add_distrib\<close>)
  have w3: "dims (d_slice1 (Some (int n + 1 - int k)) (Some (- int n - 1 - int k)) xs) = h # l # r"
    by (rule d_slice1_window [OF xs(1), where a = "n + 1 - k"])
       (use k in \<open>simp_all add: slice_bound_def nat_diff_distrib' nat_add_distrib\<close>)
  have w4: "dims (d_slice1 (Some (int n - int k)) (Some (- int n - 2 - int k)) xs) = h # l # r"
    by (rule d_slice1_window [OF xs(1), where a = "n - k"])
       (use k in \<open>simp_all add: slice_bound_def nat_diff_distrib' nat_add_distrib\<close>)
  have dp: "d_abs_diff (d_slice1 (Some (int n + 1 + int k)) (Some (- int n - 1 + int k)) xs)
              (d_slice1 (Some (int n + 2 + int k)) (Some (- int n + int k)) xs)
            = Inr \<lparr>dims = h # l # r, dtype = abs_dtype (dtype xs)\<rparr>"
    by (rule d_abs_diff_same [OF w1 w2 _ _ xs(2)]) simp_all
  have dn: "d_abs_diff (d_slice1 (Some (int n + 1 - int k)) (Some (- int n - 1 - int k)) xs)
              (d_slice1 (Some (int n - int k)) (Some (- int n - 2 - int k)) xs)
            = Inr \<lparr>dims = h # l # r, dtype = abs_dtype (dtype xs)\<rparr>"
    by (rule d_abs_diff_same [OF w3 w4 _ _ xs(2)]) simp_all
  show ?thesis
    unfolding d_tv_step_def prod.case dp dn thenE_Inr
      inplace_field [OF acc(1,2)] inplace_field [OF acc(3,4)] ..
qed

lemma d_image_tv_ok:
  assumes "dims x = h # l # r" "dtype x \<noteq> Bool" "1 \<le> n" "n + 1 \<le> l"
  shows "d_image_tv x 1 n =
           Inr (\<lparr>dims = h # l # r, dtype = abs_dtype (dtype x)\<rparr>,
                \<lparr>dims = h # l # r, dtype = abs_dtype (dtype x)\<rparr>)"
proof -
  let ?xs = "d_concatenate1 (d_slice1 (Some (- int n - 1)) None x) x
               (d_slice1 (Some 0) (Some (int n + 1)) x)"
  let ?f = "\<lparr>dims = h # l # r, dtype = abs_dtype (dtype x)\<rparr>"
  have sb: "slice_bound l (- int n - 1) = l - (n + 1)" "slice_bound l 0 = 0"
       "slice_bound l (int n + 1) = n + 1"
    using assms by (simp_all add: slice_bound_def nat_diff_distrib' nat_add_distrib)
  have d1: "dims (d_slice1 (Some (- int n - 1)) None x) = h # (n + 1) # r"
    using assms by (simp add: d_slice1_def Let_def sb)
  have d3: "dims (d_slice1 (Some 0) (Some (int n + 1)) x) = h # (n + 1) # r"
    using assms by (simp add: d_slice1_def Let_def sb)
  have dx: "dims ?xs = h # (l + 2 * n + 2) # r"
    using dims_d_concatenate1 [OF d1 assms(1) d3] by (simp add: algebra_simps)
  have tx: "dtype ?xs = dtype x" by simp
  have nb: "dtype ?xs \<noteq> Bool" using assms(2) by simp
  have w1: "dims (d_slice1 (Some (int n + 1)) (Some (- int n - 1)) ?xs) = h # l # r"
    by (rule d_slice1_window [OF dx, where a = "n + 1"])
       (use assms in \<open>simp_all add: slice_bound_def nat_diff_distrib' nat_add_distrib\<close>)
  have w2: "dims (d_slice1 (Some (int n + 2)) (Some (- int n)) ?xs) = h # l # r"
    by (rule d_slice1_window [OF dx, where a = "n + 2"])
       (use assms in \<open>simp_all add: slice_bound_def nat_diff_distrib' nat_add_distrib\<close>)
  have w3: "dims (d_slice1 (Some (int n)) (Some (- int n - 2)) ?xs) = h # l # r"
    by (rule d_slice1_window [OF dx, where a = "n"])
       (use assms in \<open>simp_all add: slice_bound_def nat_diff_distrib' nat_add_distrib\<close>)
  have p0: "d_abs_diff (d_slice1 (Some (int n + 1)) (Some (- int n - 1)) ?xs)
              (d_slice1 (Some (int n + 2)) (Some (- int n)) ?xs) = Inr ?f"
    using d_abs_diff_same [OF w1 w2 _ _ nb] by simp
  have q0: "d_abs_diff (d_slice1 (Some (int n + 1)) (Some (- int n - 1)) ?xs)
              (d_slice1 (Some (int n)) (Some (- int n - 2)) ?xs) = Inr ?f"
    using d_abs_diff_same [OF w1 w3 _ _ nb] by simp
  have lp: "foldE (d_tv_step ?xs (int n)) [1..<n] (?f, ?f) = Inr (?f, ?f)"
  proof (rule foldE_same)
    fix k assume "k \<in> set [1..<n]"
    then have k: "1 \<le> k" "k < n" by simp_all
    show "d_tv_step ?xs (int n) k (?f, ?f) = Inr (?f, ?f)"
      by (rule d_tv_step_ok [OF dx nb k]) simp_all
  qed
  show ?thesis
    unfolding d_image_tv_def Let_def
    by (simp only: if_True one_neq_zero simp_thms p0 q0 lp thenE_Inr prod.case) simp
qed

lemma d_tv_score_ok:
  assumes "dims x = h # l # r" "dtype x \<noteq> Bool" "1 \<le> n" "n + 1 \<le> l"
  shows "d_tv_score x n = Inr \<lparr>dims = h # l # r, dtype = abs_dtype (dtype x)\<rparr>"
  unfolding d_tv_score_def d_image_tv_ok [OF assms] by simp

lemma dims_d_phase_ramp:
  "dims (d_phase_ramp nd N fd) = (if nd = 2 then [1, N] else if nd = 3 then [1, N, 1] else [N])"
  by (simp add: d_phase_ramp_def Let_def)

lemma broadcast_ramp:
  "length r \<le> 1 \<Longrightarrow>
   broadcast (h # l # r) (dims (d_phase_ramp (length (h # l # r)) l fd)) = Some (h # l # r)"
  by (cases r) (auto simp: broadcast_def dims_d_phase_ramp)

lemma fft_dtype_kind [simp]: "kind_of (fft_dtype d) = ComplexK"
  by (cases d) (simp_all add: fft_dtype_def complex_of_def)

lemma complex_of_kind [simp]: "kind_of (complex_of p) = ComplexK"
  by (simp add: complex_of_def)

lemma promote_complex_kind:
  "kind_of a = ComplexK \<Longrightarrow> kind_of (promote_types a b) = ComplexK"
  "kind_of b = ComplexK \<Longrightarrow> kind_of (promote_types a b) = ComplexK"
  by (cases a; cases b; simp add: promote_types_def complex_of_def)+

lemma abs_complex_not_Bool: "kind_of d = ComplexK \<Longrightarrow> abs_dtype d \<noteq> Bool"
  by (cases d) (simp_all add: abs_dtype_def float_of_def)

lemma d_shifted_ok:
  assumes "dims c = h # l # r" "length r \<le> 1" "1 \<le> h" "1 \<le> l" "kind_of (dtype c) = ComplexK"
    and "dims k = dims (d_phase_ramp (length (h # l # r)) l fd)"
  shows "\<exists>d. d \<noteq> Bool \<and> d_shifted c k = Inr \<lparr>dims = h # l # r, dtype = d\<rparr>"
proof -
  have b: "broadcast (dims c) (dims k) = Some (h # l # r)"
    unfolding assms(1) assms(6) by (rule broadcast_ramp [OF assms(2)])
  have "d_shifted c k =
          Inr \<lparr>dims = h # l # r, dtype = abs_dtype (fft_dtype (promote_types (dtype c) (dtype k)))\<rparr>"
    using assms(3,4) by (simp add: d_shifted_def binary_def b d_fft2_def)
  moreover have "abs_dtype (fft_dtype (promote_types (dtype c) (dtype k))) \<noteq> Bool"
    by (rule abs_complex_not_Bool) simp
  ultimately show ?thesis by blast
qed

lemma mask_index_same [simp]: "dims a = dims m \<Longrightarrow> mask_index a m = Inr ()"
  by (simp add: mask_index_def)

lemma d_search_step_ok:
  assumes c: "dims c = h # l # r" "length r \<le> 1" "1 \<le> h" "kind_of (dtype c) = ComplexK"
    and k: "dims k = dims (d_phase_ramp (length (h # l # r)) l fd)"
    and n: "1 \<le> n" "n + 1 \<le> l"
    and st: "dims (d_isp st) = h # l # r" "dims (d_isn st) = h # l # r"
            "dims (d_sp st) = h # l # r" "dims (d_sn st) = h # l # r"
            "dims (d_tvp st) = h # l # r" "dims (d_tvn st) = h # l # r"
  shows "d_search_step n c k s st = Inr st"
proof -
  have l1: "1 \<le> l" using n by simp
  obtain d where d: "d \<noteq> Bool" "d_shifted c k = Inr \<lparr>dims = h # l # r, dtype = d\<rparr>"
    using d_shifted_ok [OF c(1,2,3) l1 c(4) k] by blast
  have tv: "d_tv_score \<lparr>dims = h # l # r, dtype = d\<rparr> n = Inr \<lparr>dims = h # l # r, dtype = abs_dtype d\<rparr>"
    using d_tv_score_ok [of "\<lparr>dims = h # l # r, dtype = d\<rparr>" h l r n] d(1) n by simp
  show ?thesis
    unfolding d_search_step_def Let_def
    by (simp add: d tv st)
qed

text \<open>The loop of \<open>_gibbs_removal_1d\<close> returns on an axis long enough for the window.\<close>

lemma d_search_loop_ok:
  assumes xs: "dims xs = h # l # r" "length r \<le> 1" "1 \<le> h" "1 \<le> n" "n + 1 \<le> l"
    and c: "dims c = dims xs" "kind_of (dtype c) = ComplexK"
    and tv: "dims tv = dims xs"
  shows "foldE (d_search_step n c (d_phase_ramp (length (dims xs)) (dims xs ! 1) fd)) ssamp
           \<lparr>d_isp = xs, d_isn = xs, d_sp = \<lparr>dims = dims xs, dtype = fd\<rparr>,
            d_sn = \<lparr>dims = dims xs, dtype = fd\<rparr>, d_tvp = tv, d_tvn = tv\<rparr>
         = Inr \<lparr>d_isp = xs, d_isn = xs, d_sp = \<lparr>dims = dims xs, dtype = fd\<rparr>,
            d_sn = \<lparr>dims = dims xs, dtype = fd\<rparr>, d_tvp = tv, d_tvn = tv\<rparr>"
proof (rule foldE_same)
  fix s
  have k: "dims (d_phase_ramp (length (dims xs)) (dims xs ! 1) fd)
             = dims (d_phase_ramp (length (h # l # r)) l fd)"
    by (simp add: xs(1))
  show "d_search_step n c (d_phase_ramp (length (dims xs)) (dims xs ! 1) fd) s
          \<lparr>d_isp = xs, d_isn = xs, d_sp = \<lparr>dims = dims xs, dtype = fd\<rparr>,
           d_sn = \<lparr>dims = dims xs, dtype = fd\<rparr>, d_tvp = tv, d_tvn = tv\<rparr>
        = Inr \<lparr>d_isp = xs, d_isn = xs, d_sp = \<lparr>dims = dims xs, dtype = fd\<rparr>,
           d_sn = \<lparr>dims = dims xs, dtype = fd\<rparr>, d_tvp = tv, d_tvn = tv\<rparr>"
    by (rule d_search_step_ok [OF _ xs(2,3) c(2) k xs(4,5)]) (simp_all add: c(1) tv xs(1))
qed

lemma d_transpose01_twice [simp]: "d_transpose01 (d_transpose01 x) = x"
  by (simp add: d_transpose01_def split: list.splits)

lemma dims_d_transpose01 [simp]: "dims x = a # b # r \<Longrightarrow> dims (d_transpose01 x) = b # a # r"
  by (simp add: d_transpose01_def)

lemma dtype_d_transpose01 [simp]: "dtype (d_transpose01 x) = dtype x"
  by (simp add: d_transpose01_def)

text \<open>Everything before the interpolation returns on an axis long enough for the window.\<close>

lemma d_gibbs_removal_1d_oriented:
  assumes xs: "dims xs = h # l # r" "length r \<le> 1" "1 \<le> h" "1 \<le> n" "n + 1 \<le> l"
    and nb: "dtype xs \<noteq> Bool"
  shows "thenE (d_tv_score xs n) (\<lambda>tvp.
           thenE (d_fft2 xs) (\<lambda>c.
             thenE (foldE (d_search_step n c (d_phase_ramp (length (dims xs)) (dims xs ! 1) fd)) ssamp
                      \<lparr>d_isp = xs, d_isn = xs, d_sp = \<lparr>dims = dims xs, dtype = fd\<rparr>,
                       d_sn = \<lparr>dims = dims xs, dtype = fd\<rparr>, d_tvp = tvp, d_tvn = tvp\<rparr>) (\<lambda>st.
               thenE (binary (promote_types (dtype (d_sp st)) (dtype (d_sn st))) (d_sp st) (d_sn st))
                 (\<lambda>_. rest))))
         = rest"
proof -
  let ?tv = "\<lparr>dims = h # l # r, dtype = abs_dtype (dtype xs)\<rparr>"
  let ?c = "xs\<lparr>dtype := fft_dtype (dtype xs)\<rparr>"
  have tv: "d_tv_score xs n = Inr ?tv" by (rule d_tv_score_ok [OF xs(1) nb xs(4,5)])
  have ff: "d_fft2 xs = Inr ?c" using xs by (simp add: d_fft2_def)
  have lp: "foldE (d_search_step n ?c (d_phase_ramp (length (dims xs)) (dims xs ! 1) fd)) ssamp
           \<lparr>d_isp = xs, d_isn = xs, d_sp = \<lparr>dims = dims xs, dtype = fd\<rparr>,
            d_sn = \<lparr>dims = dims xs, dtype = fd\<rparr>, d_tvp = ?tv, d_tvn = ?tv\<rparr>
         = Inr \<lparr>d_isp = xs, d_isn = xs, d_sp = \<lparr>dims = dims xs, dtype = fd\<rparr>,
            d_sn = \<lparr>dims = dims xs, dtype = fd\<rparr>, d_tvp = ?tv, d_tvn = ?tv\<rparr>"
    by (rule d_search_loop_ok [OF xs]) (simp_all add: xs(1))
  show ?thesis
    unfolding tv ff thenE_Inr lp by simp
qed

lemma d_gibbs_removal_1d_axis1:
  assumes "dims x = h # l # r" "length r \<le> 1" "1 \<le> h" "1 \<le> n" "n + 1 \<le> l" "dtype x \<noteq> Bool"
  shows "d_gibbs_removal_1d x 1 n =
           thenE (d_interpolate (dtype x) (promote_types (dtype x) Float32)) (\<lambda>_. Inr x)"
  unfolding d_gibbs_removal_1d_def Let_def
  by (simp only: one_neq_zero simp_thms if_True if_False not_False_eq_True
      d_gibbs_removal_1d_oriented [OF assms])

lemma d_gibbs_removal_1d_axis0:
  assumes "dims x = h # l # r" "length r \<le> 1" "1 \<le> l" "1 \<le> n" "n + 1 \<le> h" "dtype x \<noteq> Bool"
  shows "d_gibbs_removal_1d x 0 n =
           thenE (d_interpolate (dtype x) (promote_types (dtype x) Float32)) (\<lambda>_. Inr x)"
proof -
  have dx: "dims (d_transpose01 x) = l # h # r" using assms(1) by simp
  have nb: "dtype (d_transpose01 x) \<noteq> Bool" using assms(6) by simp
  show ?thesis
    unfolding d_gibbs_removal_1d_def Let_def
    by (simp only: simp_thms if_True if_False d_transpose01_twice dtype_d_transpose01
        d_gibbs_removal_1d_oriented [OF dx assms(2,3,4,5) nb])
qed

lemma d_gibbs_removal_1d_result:
  "d_gibbs_removal_1d x axis n = Inr r \<Longrightarrow> r = x"
  unfolding d_gibbs_removal_1d_def Let_def
  by (auto simp: thenE_eq_Inr split: if_splits)

lemma d_interpolate_float:
  "kind_of d = FloatK \<or> kind_of d = ComplexK \<Longrightarrow> d_interpolate d (promote_types d Float32) = Inr d"
  by (cases d) (simp_all add: d_interpolate_def promote_types_def can_cast_same_kind_def
      float_of_def complex_of_def)

lemma d_interpolate_int:
  "kind_of d = IntK \<Longrightarrow> d_interpolate d (promote_types d Float32) = Inl UFuncTypeError"
  by (cases d) (simp_all add: d_interpolate_def promote_types_def can_cast_same_kind_def
      float_of_def complex_of_def)

lemma d_fft2_eq_Inr:
  "d_fft2 x = Inr c \<longleftrightarrow> dims x ! 0 \<noteq> 0 \<and> dims x ! 1 \<noteq> 0 \<and> c = x\<lparr>dtype := fft_dtype (dtype x)\<rparr>"
  by (auto simp: d_fft2_def)

lemma binary_eq_Inr:
  "binary dt a b = Inr c \<longleftrightarrow> (\<exists>s. broadcast (dims a) (dims b) = Some s \<and> c = \<lparr>dims = s, dtype = dt\<rparr>)"
  by (auto simp: binary_def split: option.splits)

lemma inplace_eq_Inr: "inplace a b = Inr c \<Longrightarrow> c = a"
  by (auto simp: inplace_def split: if_splits)

text \<open>What \<open>_gibbs_removal_2d\<close> returns when it returns, the weights given.\<close>

lemma d_gibbs_removal_2d_result:
  assumes "d_gibbs_removal_2d img n (Some G0) (Some G1) = Inr r"
  shows "broadcast (dims img) (dims G1) = Some (dims r) \<and> kind_of (dtype r) = ComplexK"
proof -
  from assms obtain c1 c0 C1 C0 i1 t i2 i3 where
    a: "d_gibbs_removal_1d img 1 n = Inr c1" "d_gibbs_removal_1d img 0 n = Inr c0"
       "d_fft2 c1 = Inr C1" "d_fft2 c0 = Inr C0"
       "binary (promote_types (dtype C1) (dtype G1)) C1 G1 = Inr i1"
       "binary (promote_types (dtype C0) (dtype G0)) C0 G0 = Inr t"
       "inplace i1 t = Inr i2" "d_fft2 i2 = Inr i3" "r = i3"
    unfolding d_gibbs_removal_2d_def
    by (auto simp: thenE_eq_Inr split: if_splits)
  have c1: "c1 = img" using a(1) by (rule d_gibbs_removal_1d_result)
  have C1: "dims C1 = dims img" using a(3) c1 by (auto simp: d_fft2_eq_Inr)
  have i2: "i2 = i1" using a(7) by (rule inplace_eq_Inr)
  from a(5) C1 have "broadcast (dims img) (dims G1) = Some (dims i1)"
    by (auto simp: binary_eq_Inr)
  moreover have "dims r = dims i1" "kind_of (dtype r) = ComplexK"
    using a(8,9) i2 by (auto simp: d_fft2_eq_Inr)
  ultimately show ?thesis by simp
qed

lemma promote_types_commute_kind:
  "kind_of a = ComplexK \<Longrightarrow> kind_rank (kind_of (promote_types a b)) = 3"
  using promote_complex_kind(1) [of a b] by simp

text \<open>\<open>_gibbs_removal_2d\<close> returns on a floating point image long enough on both axes.\<close>

lemma d_gibbs_removal_2d_ok:
  assumes img: "dims img = h # l # r" "length r \<le> 1"
    and n: "1 \<le> n" "n + 1 \<le> h" "n + 1 \<le> l"
    and dt: "kind_of (dtype img) = FloatK \<or> kind_of (dtype img) = ComplexK"
    and G: "broadcast (h # l # r) (dims G1) = Some (h # l # r)"
           "broadcast (h # l # r) (dims G0) = Some (h # l # r)" "dtype G0 = dtype G1"
  shows "d_gibbs_removal_2d img n (Some G0) (Some G1) =
           Inr \<lparr>dims = h # l # r,
                dtype = fft_dtype (promote_types (fft_dtype (dtype img)) (dtype G1))\<rparr>"
proof -
  have nb: "dtype img \<noteq> Bool" using dt by auto
  have h1: "1 \<le> h" and l1: "1 \<le> l" using n by simp_all
  have r1: "d_gibbs_removal_1d img 1 n = Inr img"
    by (simp only: d_gibbs_removal_1d_axis1 [OF img h1 n(1,3) nb] d_interpolate_float [OF dt] thenE_Inr)
  have r0: "d_gibbs_removal_1d img 0 n = Inr img"
    by (simp only: d_gibbs_removal_1d_axis0 [OF img l1 n(1,2) nb] d_interpolate_float [OF dt] thenE_Inr)
  let ?C = "img\<lparr>dtype := fft_dtype (dtype img)\<rparr>"
  let ?d = "promote_types (fft_dtype (dtype img)) (dtype G1)"
  have ff: "d_fft2 img = Inr ?C" using img h1 l1 by (simp add: d_fft2_def)
  have b1: "binary ?d ?C G1 = Inr \<lparr>dims = h # l # r, dtype = ?d\<rparr>"
    using G(1) img(1) by (simp add: binary_def)
  have b0: "binary ?d ?C G0 = Inr \<lparr>dims = h # l # r, dtype = ?d\<rparr>"
    using G(2) img(1) by (simp add: binary_def)
  have ip: "inplace \<lparr>dims = h # l # r, dtype = ?d\<rparr> \<lparr>dims = h # l # r, dtype = ?d\<rparr>
              = Inr \<lparr>dims = h # l # r, dtype = ?d\<rparr>"
    by simp
  have f2: "d_fft2 \<lparr>dims = h # l # r, dtype = ?d\<rparr> = Inr \<lparr>dims = h # l # r, dtype = fft_dtype ?d\<rparr>"
    using h1 l1 by (simp add: d_fft2_def)
  have cc: "can_cast_same_kind (abs_dtype (fft_dtype ?d)) (fft_dtype ?d)"
    by (cases "fft_dtype ?d") (simp_all add: can_cast_same_kind_def abs_dtype_def float_of_def)
  show ?thesis
    unfolding d_gibbs_removal_2d_def
    using img(2) cc
    by (auto simp add: r1 [unfolded One_nat_def] r0 ff b1 b0 [unfolded G(3)] G(3) f2 img(1) le_Suc_eq)
qed

lemma broadcast_newaxis [simp]: "broadcast [a, b, m] [a, b, Suc 0] = Some [a, b, m]"
  by (simp add: broadcast_def)

lemma d_weights_eq_Inr:
  "d_weights shp dt = Inr (g0, g1) \<Longrightarrow>
   dims g0 = shp \<and> dims g1 = shp \<and> dtype g0 = promote_types Float32 dt \<and> dtype g1 = promote_types Float32 dt"
  by (auto simp: d_weights_def Let_def split: if_splits)

lemma d_reshape_eq_Inr: "d_reshape shp x = Inr y \<Longrightarrow> dims y = shp \<and> dtype y = dtype x"
  by (auto simp: d_reshape_def split: if_splits)

lemma d_gibbs_removal_core:
  "d_gibbs_removal vol ax n =
     (if ax > 2 then Inl ValueError
      else if ax < 2 \<and> length (dims vol) > 2
      then thenE (d_core (d_swapaxes ax 2 vol) n) (\<lambda>v. Inr (d_swapaxes ax 2 v))
      else d_core vol n)"
proof -
  have len: "length (dims (d_swapaxes ax 2 vol)) = length (dims vol)"
    by (simp add: d_swapaxes_def)
  have t: "thenE (thenE m f) g = thenE m (\<lambda>a. thenE (f a) g)" for m :: "error + 'a" and f :: "'a \<Rightarrow> error + 'b" and g :: "'b \<Rightarrow> error + 'c"
    by (cases m) simp_all
  have u: "thenE m Inr = m" for m :: "error + 'a" by (cases m) simp_all
  show ?thesis
    unfolding d_gibbs_removal_def d_core_def Let_def
    by (auto simp: len t u split_beta intro!: arg_cong2 [where f = thenE] ext)
qed

lemma rank_cases:
  assumes "length s = 2 \<or> length s = 3 \<or> length s = 4"
  obtains a b where "s = [a, b]" | a b c where "s = [a, b, c]" | a b c d where "s = [a, b, c, d]"
proof -
  from assms consider "length s = 2" | "length s = 3" | "length s = 4" by blast
  then show thesis
  proof cases
    case 1 then show ?thesis using that(1) by (cases s; cases "tl s") auto
  next
    case 2 then show ?thesis using that(2)
      by (cases s; cases "tl s"; cases "tl (tl s)") auto
  next
    case 3 then show ?thesis using that(3)
      by (cases s; cases "tl s"; cases "tl (tl s)"; cases "tl (tl (tl s))") auto
  qed
qed

lemma d_core_result:
  assumes rk: "length (dims v) = 2 \<or> length (dims v) = 3 \<or> length (dims v) = 4"
    and r: "d_core v n = Inr r"
  shows "dims r = dims v \<and> kind_of (dtype r) = ComplexK"
  using rk
proof (cases "dims v" rule: rank_cases)
  case (1 a b)
  from r obtain g0 g1 where
    "d_weights [a, b] (dtype v) = Inr (g0, g1)" "d_gibbs_removal_2d v n (Some g0) (Some g1) = Inr r"
    by (auto simp: d_core_def Let_def 1 thenE_eq_Inr)
  then show ?thesis
    using d_gibbs_removal_2d_result [of v n g0 g1 r] d_weights_eq_Inr [of "[a, b]" "dtype v" g0 g1]
    by (simp add: 1)
next
  case (2 a b c)
  from r obtain g0 g1 where
    "d_weights [a, b] (dtype v) = Inr (g0, g1)"
    "d_gibbs_removal_2d v n (Some (d_newaxis g0)) (Some (d_newaxis g1)) = Inr r"
    by (auto simp: d_core_def Let_def 2 thenE_eq_Inr)
  then show ?thesis
    using d_gibbs_removal_2d_result [of v n "d_newaxis g0" "d_newaxis g1" r]
      d_weights_eq_Inr [of "[a, b]" "dtype v" g0 g1]
    by (simp add: 2 d_newaxis_def)
next
  case (3 a b c d)
  from r obtain v' g0 g1 r' where
    a: "d_reshape [a, b, c * d] v = Inr v'"
    "d_weights (take 2 (dims v')) (dtype v') = Inr (g0, g1)"
    "d_gibbs_removal_2d v' n (Some (d_newaxis g0)) (Some (d_newaxis g1)) = Inr r'"
    "d_reshape [a, b, c, d] r' = Inr r"
    by (auto simp: d_core_def Let_def 3 thenE_eq_Inr)
  have v': "dims v' = [a, b, c * d]" using d_reshape_eq_Inr [OF a(1)] by simp
  have "kind_of (dtype r') = ComplexK"
    using d_gibbs_removal_2d_result [OF a(3)] by simp
  then show ?thesis
    using d_reshape_eq_Inr [OF a(4)] by (simp add: 3)
qed

lemma promote_Float32_not_Bool [simp]: "promote_types Float32 d \<noteq> Bool"
  by (cases d) (simp_all add: promote_types_def float_of_def complex_of_def)

lemma d_core_ok:
  assumes rk: "length (dims v) = 2 \<or> length (dims v) = 3 \<or> length (dims v) = 4"
    and n: "1 \<le> n" "n + 1 \<le> dims v ! 0" "n + 1 \<le> dims v ! 1"
    and dt: "kind_of (dtype v) = FloatK \<or> kind_of (dtype v) = ComplexK"
  shows "d_core v n =
           Inr \<lparr>dims = dims v,
                dtype = fft_dtype (promote_types (fft_dtype (dtype v)) (promote_types Float32 (dtype v)))\<rparr>"
  using rk
proof (cases "dims v" rule: rank_cases)
  case (1 a b)
  have ab: "n + 1 \<le> a" "n + 1 \<le> b" using n by (simp_all add: 1)
  let ?g = "\<lparr>dims = [a, b], dtype = promote_types Float32 (dtype v)\<rparr>"
  have w: "d_weights [a, b] (dtype v) = Inr (?g, ?g)"
    using ab by (simp add: d_weights_def Let_def)
  have "d_gibbs_removal_2d v n (Some ?g) (Some ?g) =
          Inr \<lparr>dims = [a, b], dtype = fft_dtype (promote_types (fft_dtype (dtype v)) (dtype ?g))\<rparr>"
    by (rule d_gibbs_removal_2d_ok [OF 1 _ n(1) ab dt]) simp_all
  then show ?thesis
    unfolding d_core_def Let_def by (simp add: 1 w)
next
  case (2 a b c)
  have ab: "n + 1 \<le> a" "n + 1 \<le> b" using n by (simp_all add: 2)
  let ?g = "\<lparr>dims = [a, b], dtype = promote_types Float32 (dtype v)\<rparr>"
  have w: "d_weights [a, b] (dtype v) = Inr (?g, ?g)"
    using ab by (simp add: d_weights_def Let_def)
  have "d_gibbs_removal_2d v n (Some (d_newaxis ?g)) (Some (d_newaxis ?g)) =
          Inr \<lparr>dims = [a, b, c], dtype = fft_dtype (promote_types (fft_dtype (dtype v)) (dtype (d_newaxis ?g)))\<rparr>"
    by (rule d_gibbs_removal_2d_ok [OF 2 _ n(1) ab dt]) (simp_all add: d_newaxis_def)
  then show ?thesis
    unfolding d_core_def Let_def by (simp add: 2 w d_newaxis_def)
next
  case (3 a b c d)
  have ab: "n + 1 \<le> a" "n + 1 \<le> b" using n by (simp_all add: 3)
  let ?v = "v\<lparr>dims := [a, b, c * d]\<rparr>"
  let ?g = "\<lparr>dims = [a, b], dtype = promote_types Float32 (dtype v)\<rparr>"
  have rs: "d_reshape [a, b, c * d] v = Inr ?v"
    by (simp add: d_reshape_def 3)
  have w: "d_weights [a, b] (dtype v) = Inr (?g, ?g)"
    using ab by (simp add: d_weights_def Let_def)
  have dv: "dims ?v = [a, b, c * d]" by simp
  have dtv: "kind_of (dtype ?v) = FloatK \<or> kind_of (dtype ?v) = ComplexK" using dt by simp
  let ?g1 = "\<lparr>dims = [a, b, Suc 0], dtype = promote_types Float32 (dtype v)\<rparr>"
  have g2: "d_gibbs_removal_2d ?v n (Some ?g1) (Some ?g1) =
          Inr \<lparr>dims = [a, b, c * d], dtype = fft_dtype (promote_types (fft_dtype (dtype ?v)) (dtype ?g1))\<rparr>"
    by (rule d_gibbs_removal_2d_ok [OF dv _ n(1) ab dtv]) simp_all
  show ?thesis
    unfolding d_core_def Let_def by (simp add: 3 rs w g2 d_newaxis_def d_reshape_def)
qed












lemma length_d_swapaxes [simp]: "length (dims (d_swapaxes a b v)) = length (dims v)"
  by (simp add: d_swapaxes_def)

lemma dtype_d_swapaxes [simp]: "dtype (d_swapaxes a b v) = dtype v"
  by (simp add: d_swapaxes_def)

lemma d_swapaxes_back:
  assumes "ax < 2" "2 < length (dims v)" "dims r = dims (d_swapaxes ax 2 v)"
  shows "dims (d_swapaxes ax 2 r) = dims v"
proof -
  obtain a b c t where v: "dims v = a # b # c # t"
    using assms(2) by (cases "dims v"; cases "tl (dims v)"; cases "tl (tl (dims v))") auto
  from assms(1) consider "ax = 0" | "ax = 1" by linarith
  then show ?thesis
    by cases (simp_all add: d_swapaxes_def assms(3) v)
qed


text \<open>What \<open>gibbs_removal\<close> returns when it returns.\<close>

lemma d_gibbs_removal_result:
  assumes rk: "length (dims vol) = 2 \<or> length (dims vol) = 3 \<or> length (dims vol) = 4"
    and r: "d_gibbs_removal vol ax n = Inr r"
  shows "dims r = dims vol \<and> kind_of (dtype r) = ComplexK"
proof (cases "ax < 2 \<and> 2 < length (dims vol)")
  case True
  from r obtain r' where
    r': "d_core (d_swapaxes ax 2 vol) n = Inr r'" "r = d_swapaxes ax 2 r'"
    unfolding d_gibbs_removal_core using True
    by (auto simp: thenE_eq_Inr split: if_splits)
  have "dims r' = dims (d_swapaxes ax 2 vol) \<and> kind_of (dtype r') = ComplexK"
    by (rule d_core_result [OF _ r'(1)]) (use rk in simp)
  then show ?thesis
    using d_swapaxes_back [of ax vol r'] True r'(2) by simp
next
  case False
  from r have "d_core vol n = Inr r"
    unfolding d_gibbs_removal_core using False by (auto split: if_splits)
  then show ?thesis by (rule d_core_result [OF rk])
qed

lemma plane_swapped:
  "ax < 2 \<and> 2 < length (dims vol) \<Longrightarrow>
   plane vol ax = (dims (d_swapaxes ax 2 vol) ! 0, dims (d_swapaxes ax 2 vol) ! 1)"
  by (simp add: plane_def Let_def)

lemma plane_plain:
  "\<not> (ax < 2 \<and> 2 < length (dims vol)) \<Longrightarrow> plane vol ax = (dims vol ! 0, dims vol ! 1)"
  by (auto simp add: plane_def Let_def)

lemma d_gibbs_removal_ok:
  assumes rk: "length (dims vol) = 2 \<or> length (dims vol) = 3 \<or> length (dims vol) = 4"
    and ax: "ax \<le> 2"
    and n: "1 \<le> n" "n + 1 \<le> fst (plane vol ax)" "n + 1 \<le> snd (plane vol ax)"
    and dt: "kind_of (dtype vol) = FloatK \<or> kind_of (dtype vol) = ComplexK"
  shows "\<exists>r. d_gibbs_removal vol ax n = Inr r"
proof (cases "ax < 2 \<and> 2 < length (dims vol)")
  case True
  let ?v = "d_swapaxes ax 2 vol"
  have "\<exists>r. d_core ?v n = Inr r"
    using d_core_ok [of ?v n] rk n dt by (simp add: plane_swapped [OF True])
  then show ?thesis
    unfolding d_gibbs_removal_core using True ax by auto
next
  case False
  have "\<exists>r. d_core vol n = Inr r"
    using d_core_ok [OF rk n(1)] n dt by (simp add: plane_plain [OF False])
  then show ?thesis
    unfolding d_gibbs_removal_core using False ax by auto
qed


lemma d_gibbs_removal_2d_int:
  assumes img: "dims img = h # l # r" "length r \<le> 1"
    and n: "1 \<le> n" "n + 1 \<le> h" "n + 1 \<le> l"
    and dt: "kind_of (dtype img) = IntK"
  shows "d_gibbs_removal_2d img n (Some G0) (Some G1) = Inl UFuncTypeError"
proof -
  have nb: "dtype img \<noteq> Bool" using dt by auto
  have h1: "1 \<le> h" using n by simp
  have r1: "d_gibbs_removal_1d img 1 n = Inl UFuncTypeError"
    by (simp only: d_gibbs_removal_1d_axis1 [OF img h1 n(1,3) nb] d_interpolate_int [OF dt] thenE_Inl)
  show ?thesis
    unfolding d_gibbs_removal_2d_def
    using img(2) by (auto simp add: r1 [unfolded One_nat_def] img(1) le_Suc_eq)
qed

lemma d_core_int:
  assumes rk: "length (dims v) = 2 \<or> length (dims v) = 3"
    and n: "1 \<le> n" "n + 1 \<le> dims v ! 0" "n + 1 \<le> dims v ! 1"
    and dt: "kind_of (dtype v) = IntK"
  shows "d_core v n = Inl UFuncTypeError"
proof -
  from rk obtain a b r where v: "dims v = a # b # r" "length r \<le> 1"
    by (cases "dims v"; cases "tl (dims v)"; cases "tl (tl (dims v))") auto
  have ab: "n + 1 \<le> a" "n + 1 \<le> b" using n by (simp_all add: v)
  let ?g = "\<lparr>dims = [a, b], dtype = promote_types Float32 (dtype v)\<rparr>"
  have w: "d_weights (take 2 (dims v)) (dtype v) = Inr (?g, ?g)"
    using ab by (simp add: d_weights_def Let_def v)
  have "d_gibbs_removal_2d v n (Some G0) (Some G1) = Inl UFuncTypeError" for G0 G1
    by (rule d_gibbs_removal_2d_int [OF v n(1) ab dt])
  then show ?thesis
    unfolding d_core_def Let_def using rk by (auto simp: w)
qed

text \<open>
  Claim C7. For a volume of rank 2, 3 or 4 and a slice axis 0, 1 or 2, whatever
  \<open>gibbs_removal\<close> returns has exactly the shape of the input: the flattening of the last two
  axes of a rank 4 volume and the swap of the slice axis are both undone. And it does return
  on every floating point (real or complex) volume whose two corrected axes hold at least
  \<open>n_points + 1\<close> samples, \<open>n_points\<close> being at least 1.
\<close>

theorem gibbs_removal_shape:
  assumes "length (dims vol) = 2 \<or> length (dims vol) = 3 \<or> length (dims vol) = 4"
    and "slice_axis \<le> 2"
  shows "(\<forall>r. d_gibbs_removal vol slice_axis n_points = Inr r \<longrightarrow> dims r = dims vol) \<and>
         (1 \<le> n_points \<and> n_points + 1 \<le> fst (plane vol slice_axis)
            \<and> n_points + 1 \<le> snd (plane vol slice_axis)
            \<and> (kind_of (dtype vol) = FloatK \<or> kind_of (dtype vol) = ComplexK)
          \<longrightarrow> (\<exists>r. d_gibbs_removal vol slice_axis n_points = Inr r \<and> dims r = dims vol))"
  using d_gibbs_removal_result [OF assms(1)] d_gibbs_removal_ok [OF assms]
  by blast

theorem gibbs_removal_shape_witness:
  "\<exists>r. d_gibbs_removal \<lparr>dims = [8, 5, 9, 2], dtype = Float32\<rparr> 1 3 = Inr r \<and> dims r = [8, 5, 9, 2]"
  using gibbs_removal_shape [of "\<lparr>dims = [8, 5, 9, 2], dtype = Float32\<rparr>" 1 3]
  by (simp add: plane_def d_swapaxes_def)




text \<open>
  Claim C1 (the code departs from it). \<open>_gibbs_removal_2d\<close> takes the magnitude with
  \<open>np.abs(imagec, out=imagec)\<close>, into the complex array that \<open>ifft2\<close> returned, so the
  array \<open>gibbs_removal\<close> returns for a real input has a complex dtype: on a \<open>float64\<close>
  volume of shape \<open>(16, 16, 4)\<close> it is \<open>complex128\<close>.
\<close>

theorem gibbs_removal_real_input_complex_output:
  "d_gibbs_removal \<lparr>dims = [16, 16, 4], dtype = Float64\<rparr> 2 3
     = Inr \<lparr>dims = [16, 16, 4], dtype = Complex128\<rparr>"
proof -
  have "d_core \<lparr>dims = [16, 16, 4], dtype = Float64\<rparr> 3 =
          Inr \<lparr>dims = [16, 16, 4], dtype = Complex128\<rparr>"
    using d_core_ok [of "\<lparr>dims = [16, 16, 4], dtype = Float64\<rparr>" 3]
    by (simp add: fft_dtype_def promote_types_def complex_of_def float_of_def)
  then show ?thesis by (simp add: d_gibbs_removal_core)
qed

text \<open>
  On a half precision image the estimates of \<open>_gibbs_removal_1d\<close>, computed in single
  precision, are stored back in half precision: the array returned has the dtype of the input.
\<close>

lemma gibbs_removal_1d_half_precision:
  "d_gibbs_removal_1d \<lparr>dims = [16, 16], dtype = Float16\<rparr> 1 3
     = Inr \<lparr>dims = [16, 16], dtype = Float16\<rparr>"
proof -
  have "d_gibbs_removal_1d \<lparr>dims = [16, 16], dtype = Float16\<rparr> 1 3 =
          thenE (d_interpolate Float16 (promote_types Float16 Float32))
            (\<lambda>_. Inr \<lparr>dims = [16, 16], dtype = Float16\<rparr>)"
    using d_gibbs_removal_1d_axis1 [of "\<lparr>dims = [16, 16], dtype = Float16\<rparr>" 16 16 "[]" 3]
    by simp
  then show ?thesis
    using d_interpolate_float [of Float16] by simp
qed

text \<open>
  Claim C8 (the code departs from it). \<open>_gibbs_removal_1d\<close> computes
  \<open>float_dtype = np.promote_types(x.dtype, np.float32)\<close> but keeps the working copies
  \<open>xs\<close>, \<open>isp\<close> and \<open>isn\<close> in the dtype of the input. On an integer image the in-place
  division \<open>tmp /= sp[idx] + sn_i\<close> cannot cast its floating point result back, and the call
  ends in numpy's \<open>UFuncTypeError\<close>: here on an \<open>int64\<close> image of shape \<open>(16, 16)\<close>.
\<close>

theorem gibbs_removal_integer_input_fails:
  "d_gibbs_removal \<lparr>dims = [16, 16], dtype = Int64\<rparr> 2 3 = Inl UFuncTypeError"
proof -
  have "d_core \<lparr>dims = [16, 16], dtype = Int64\<rparr> 3 = Inl UFuncTypeError"
    by (rule d_core_int) simp_all
  then show ?thesis by (simp add: d_gibbs_removal_core)
qed

section \<open>Properties of the aliasing reading\<close>

lemma confined_fresh: "confined base fresh (\<lambda>b. base \<le> b)"
  by (simp add: confined_def fresh_def)

lemma confined_wr: "base \<le> b \<Longrightarrow> confined base (wr b) (\<lambda>_. True)"
  by (simp add: confined_def wr_def)

lemma confined_ret: "Q a \<Longrightarrow> confined base (ret a) Q"
  by (simp add: confined_def ret_def)

lemma confined_andThen:
  assumes "confined base m Q" and "\<And>a. Q a \<Longrightarrow> confined base (f a) R"
  shows "confined base (andThen m f) R"
  unfolding confined_def
proof (intro allI impI)
  fix h :: heap assume b: "base \<le> next_id h"
  obtain a h' where m: "m h = (a, h')" by (cases "m h")
  have "case m h of (a, h') \<Rightarrow>
      next_id h \<le> next_id h' \<and> (\<forall>b < base. version h' b = version h b) \<and> Q a"
    by (rule assms(1) [unfolded confined_def, rule_format, OF b])
  then have 1: "next_id h \<le> next_id h'" "\<forall>b < base. version h' b = version h b" "Q a"
    by (simp_all add: m)
  obtain c h'' where f: "f a h' = (c, h'')" by (cases "f a h'")
  have b': "base \<le> next_id h'" using b 1(1) by simp
  have "case f a h' of (c, h'') \<Rightarrow>
      next_id h' \<le> next_id h'' \<and> (\<forall>b < base. version h'' b = version h' b) \<and> R c"
    by (rule assms(2) [OF 1(3), unfolded confined_def, rule_format, OF b'])
  then have 2: "next_id h' \<le> next_id h''" "\<forall>b < base. version h'' b = version h' b" "R c"
    by (simp_all add: f)
  show "case andThen m f h of (a, h') \<Rightarrow>
          next_id h \<le> next_id h' \<and> (\<forall>b < base. version h' b = version h b) \<and> R a"
    using 1 2 by (simp add: andThen_def m f)
qed

lemma confined_weaken:
  assumes "confined base m Q" and "\<And>a. Q a \<Longrightarrow> R a"
  shows "confined base m R"
  unfolding confined_def
proof (intro allI impI)
  fix h :: heap assume b: "base \<le> next_id h"
  obtain a h' where m: "m h = (a, h')" by (cases "m h")
  have "case m h of (a, h') \<Rightarrow>
      next_id h \<le> next_id h' \<and> (\<forall>b < base. version h' b = version h b) \<and> Q a"
    by (rule assms(1) [unfolded confined_def, rule_format, OF b])
  then show "case m h of (a, h') \<Rightarrow>
      next_id h \<le> next_id h' \<and> (\<forall>b < base. version h' b = version h b) \<and> R a"
    using assms(2) by (simp add: m)
qed

lemma confined_each:
  "(\<And>x. confined base (f x) (\<lambda>_. True)) \<Longrightarrow> confined base (each f xs) (\<lambda>_. True)"
proof (induction xs)
  case Nil
  show ?case by (simp add: confined_ret)
next
  case (Cons x xs)
  show ?case
    unfolding each.simps
    by (rule confined_andThen [OF Cons.prems]) (rule Cons.IH [OF Cons.prems])
qed

lemma confined_image_tv:
  "confined base (a_image_tv x axis n) (\<lambda>(p, q). base \<le> p \<and> base \<le> q)"
  unfolding a_image_tv_def Let_def
  by (intro confined_andThen [OF confined_fresh] confined_andThen [OF confined_each]
      confined_andThen [OF confined_wr] confined_wr confined_ret) simp_all

lemma confined_shifted: "confined base (a_shifted c eks) (\<lambda>b. base \<le> b)"
  unfolding a_shifted_def
  by (intro confined_andThen [OF confined_fresh] confined_fresh)

lemma confined_tv_score: "confined base (a_tv_score img n) (\<lambda>b. base \<le> b)"
  unfolding a_tv_score_def
  by (rule confined_andThen [OF confined_image_tv]) (auto intro: confined_fresh)

lemma confined_search_step:
  assumes "base \<le> b1" "base \<le> b2" "base \<le> b3" "base \<le> b4" "base \<le> b5" "base \<le> b6"
  shows "confined base (a_search_step n c k (b1, b2, b3, b4, b5, b6) s) (\<lambda>_. True)"
  unfolding a_search_step_def prod.case
  by (intro confined_andThen [OF confined_fresh] confined_andThen [OF confined_shifted]
      confined_andThen [OF confined_tv_score] confined_andThen [OF confined_wr] confined_wr assms)

lemma confined_gibbs_removal_1d:
  "confined base (a_gibbs_removal_1d x axis n) (\<lambda>b. base \<le> b)"
  unfolding a_gibbs_removal_1d_def
  apply (rule confined_andThen [OF confined_fresh])
  apply (rule confined_andThen [OF confined_image_tv])
  apply (simp only: split_paired_all prod.case)
  apply (intro confined_andThen [OF confined_fresh])
  apply (rule confined_andThen [OF confined_each])
   apply (rule confined_search_step; assumption)
  apply (intro confined_andThen [OF confined_fresh] confined_andThen [OF confined_wr] confined_ret)
      apply assumption+
  done

lemma confined_weights: "confined base a_weights (\<lambda>(g0, g1). base \<le> g0 \<and> base \<le> g1)"
  unfolding a_weights_def
  by (intro confined_andThen [OF confined_fresh] confined_andThen [OF confined_each]
      confined_andThen [OF confined_wr] confined_wr confined_ret) simp_all

lemma confined_gibbs_removal_2d_given:
  "confined base (a_gibbs_removal_2d img n (Some g)) (\<lambda>b. base \<le> b)"
  unfolding a_gibbs_removal_2d_def option.case
  apply (rule confined_andThen [OF confined_ret [where Q = "\<lambda>_. True"]])
   apply simp
  apply (simp only: split_paired_all prod.case)
  apply (intro confined_andThen [OF confined_gibbs_removal_1d] confined_andThen [OF confined_fresh]
      confined_andThen [OF confined_wr] confined_ret)
   apply assumption+
  done

lemma confined_gibbs_removal_2d_computed:
  "confined base (a_gibbs_removal_2d img n None) (\<lambda>b. base \<le> b)"
  unfolding a_gibbs_removal_2d_def option.case
  apply (rule confined_andThen [OF confined_weights])
  apply (simp only: split_paired_all prod.case)
  apply (intro confined_andThen [OF confined_gibbs_removal_1d] confined_andThen [OF confined_fresh]
      confined_andThen [OF confined_wr] confined_ret)
   apply assumption+
  done

lemma confined_gibbs_removal_2d:
  "confined base (a_gibbs_removal_2d img n G) (\<lambda>b. base \<le> b)"
  by (cases G) (simp_all add: confined_gibbs_removal_2d_given confined_gibbs_removal_2d_computed)

lemma confined_reshape:
  "P vol \<Longrightarrow> (\<And>b. base \<le> b \<Longrightarrow> P b) \<Longrightarrow> confined base (a_reshape rc vol) P"
  unfolding a_reshape_def
  by (auto intro: confined_ret confined_weaken [OF confined_fresh])

lemma confined_gibbs_removal:
  "confined base (a_gibbs_removal rc nd vol ax n) (\<lambda>b. base \<le> b)"
  unfolding a_gibbs_removal_def Let_def
  apply (rule confined_andThen [where Q = "\<lambda>_. True"])
   apply (auto intro: confined_ret confined_reshape)[1]
  apply (rule confined_andThen [OF confined_weights])
  apply (simp only: split_paired_all prod.case)
  apply (rule confined_andThen [OF confined_gibbs_removal_2d])
  apply (rule confined_andThen [where Q = "\<lambda>b. base \<le> b"])
   apply (auto intro: confined_ret confined_reshape)[1]
  apply (erule confined_ret)
  done

lemma confined_untouched:
  fixes h :: heap
  assumes "confined (next_id h) m Q"
  shows "untouched h (snd (m h)) \<and> Q (fst (m h))"
proof -
  obtain a h' where m: "m h = (a, h')" by (cases "m h")
  have "case m h of (a, h') \<Rightarrow>
      next_id h \<le> next_id h' \<and> (\<forall>b < next_id h. version h' b = version h b) \<and> Q a"
    by (rule assms [unfolded confined_def, rule_format]) simp
  then show ?thesis by (simp add: m untouched_def)
qed

text \<open>
  Claim C10. \<open>gibbs_removal\<close> writes nothing into its argument: every buffer that exists
  when the call starts, the argument's among them, has received no write when the call is
  over, whether \<open>reshape\<close> copies or not, and the array returned lies in a buffer made
  during the call. The same holds for \<open>_gibbs_removal_2d\<close>, \<open>_gibbs_removal_1d\<close>,
  \<open>_image_tv\<close> and \<open>_weights\<close>: all their writes go to copies and to new arrays.
\<close>

theorem no_input_mutation:
  fixes h :: heap
  shows "untouched h (snd (a_gibbs_removal reshape_copies nd vol slice_axis n_points h)) \<and>
         next_id h \<le> fst (a_gibbs_removal reshape_copies nd vol slice_axis n_points h) \<and>
         untouched h (snd (a_gibbs_removal_2d img n_points G h)) \<and>
         untouched h (snd (a_gibbs_removal_1d x axis n_points h)) \<and>
         untouched h (snd (a_image_tv x axis n_points h)) \<and>
         untouched h (snd (a_weights h))"
  using confined_untouched [OF confined_gibbs_removal, of h reshape_copies nd vol slice_axis n_points]
    confined_untouched [OF confined_gibbs_removal_2d, of h img n_points G]
    confined_untouched [OF confined_gibbs_removal_1d, of h x axis n_points]
    confined_untouched [OF confined_image_tv, of h x axis n_points]
    confined_untouched [OF confined_weights, of h]
  by simp

theorem no_input_mutation_witness:
  "version (snd (a_gibbs_removal False 4 0 1 3 \<lparr>next_id = 1, version = (\<lambda>_. 5)\<rparr>)) 0 = 5 \<and>
   1 \<le> fst (a_gibbs_removal False 4 0 1 3 \<lparr>next_id = 1, version = (\<lambda>_. 5)\<rparr>)"
  using no_input_mutation [of "\<lparr>next_id = 1, version = (\<lambda>_. 5)\<rparr>" False 4 0 1 3]
  by (simp add: untouched_def)

end
